theory Spec2Isabelle
  imports Main "HOL-Library.Word"
begin

section \<open>The asteroids game of stephen\_game.c\<close>

text \<open>
  A shallow embedding of \<^verbatim>\<open>src/stephen_game.c\<close>. Every C function of the file is a HOL
  function from state to state; the file's globals (\<^verbatim>\<open>game\<close>, \<^verbatim>\<open>asteroids\<close>, \<^verbatim>\<open>shots\<close>,
  \<^verbatim>\<open>gRechargingWeapon\<close>, \<^verbatim>\<open>asteroidSpawnProbability\<close>) are fields of one record. What the
  file calls but does not define (the task scheduler, the terminal, the game system,
  \<^verbatim>\<open>random_int\<close>) belongs to the embedded-software library; the fields \<open>tasks\<close>,
  \<open>receiver\<close>, \<open>host\<close>, \<open>rand\<close> and \<open>rand_pos\<close> stand for it. A function body is the
  list of the statements of the C body, in their order.
\<close>

subsection \<open>Constants\<close>

type_synonym uint8 = "8 word"

text \<open>
  \<^verbatim>\<open>int\<close> on the target of the project, the MSP430F5529: 16 bits, read as two's
  complement by \<open>sint\<close>, from \<open>INT_MIN\<close> to \<open>INT_MAX\<close>. An increment at \<open>INT_MAX\<close> is
  undefined in C; the model wraps there, as the target does, and no property below
  relies on it.
\<close>

type_synonym cint = "16 word"

abbreviation INT_MAX :: int where "INT_MAX \<equiv> 32767"

abbreviation MAP_WIDTH :: nat where "MAP_WIDTH \<equiv> 60"
abbreviation MAP_HEIGHT :: nat where "MAP_HEIGHT \<equiv> 18"
abbreviation MAX_COLUMNS :: nat where "MAX_COLUMNS \<equiv> MAP_WIDTH - 2"
abbreviation FIRE_SPEED :: nat where "FIRE_SPEED \<equiv> 100"
abbreviation RECHARGE_RATE :: nat where "RECHARGE_RATE \<equiv> 750"
abbreviation MAX_SHOTS :: nat where "MAX_SHOTS \<equiv> 5"
abbreviation STARTING_DIFFICULTY :: uint8 where "STARTING_DIFFICULTY \<equiv> 24"

subsection \<open>Data\<close>

text \<open>
  \<^verbatim>\<open>char_object_t\<close> is declared by the library; the file uses its fields \<^verbatim>\<open>x\<close>, \<^verbatim>\<open>y\<close>
  and \<^verbatim>\<open>status\<close> only.
\<close>

record char_object =
  obj_x :: uint8
  obj_y :: uint8
  status :: uint8

text \<open>
  The identities under which the file schedules work. A shot's advance task is
  \<^verbatim>\<open>(MoveRightShot, &shots[k])\<close>: the slot index stands for the pointer.
\<close>

datatype task =
    T_GenerateAndShift
  | T_IncreaseScore
  | T_MoveRightShot nat
  | T_DecreaseCooldown
  | T_UpdateScore
  | T_UpdateHealth
  | T_UpdateShotCooldown
  | T_UpdateDifficulty
  | T_ResetScreenColor

datatype color =
    ForegroundCyan | ForegroundWhite | ForegroundRed | ForegroundYellow | ForegroundGreen
  | BackgroundRed | BackgroundBlack | BackgroundYellow

text \<open>What the file tells the game system: a log line, or that the game is over.\<close>

datatype host_call = Log string | EndGame

text \<open>
  \<^verbatim>\<open>struct stephen_game_t game\<close> is the \<open>game_\<close> fields, the two \<^verbatim>\<open>int\<close> counters of
  width 16.

  \<^verbatim>\<open>uint8_t asteroids[MAP_WIDTH-1][MAP_HEIGHT-1]\<close> is 59 lines of 17 bytes, laid out
  line after line: 1003 bytes. The file indexes it with second index 17 and first index
  59 as well (see \<open>in_bounds\<close> below), so the field \<open>asteroids\<close> gives the byte at each
  offset from the start of the array; the offsets from 1003 on are the memory that
  follows the array, taken to be apart from the other variables.
\<close>

record state =
  game_x :: uint8
  game_y :: uint8
  game_c :: char
  game_health :: uint8
  game_shotCooldown :: uint8
  game_score :: cint
  game_shotsFired :: cint
  game_id :: uint8
  asteroids :: "nat \<Rightarrow> uint8"
  shots :: "char_object list"
  gRechargingWeapon :: uint8
  asteroidSpawnProbability :: uint8
  tasks :: "(task \<times> nat) list"
  receiver :: bool
  host :: "host_call list"
  rand :: "nat \<Rightarrow> uint8"
  rand_pos :: nat

text \<open>A C block: its statements, run in order.\<close>

fun seq :: "(state \<Rightarrow> state) list \<Rightarrow> state \<Rightarrow> state" where
  "seq [] s = s"
| "seq (f # fs) s = seq fs (f s)"

subsection \<open>The library, as the file uses it\<close>

text \<open>
  Modelled from the spec: the scheduler (\<^verbatim>\<open>task.h\<close> is not part of the repository). Its
  contract in the spec: \<^verbatim>\<open>schedule(task, arg, initial_delay, period)\<close>, period 0 means
  one-shot; \<^verbatim>\<open>queue(task, arg)\<close> runs the task on the next tick; \<^verbatim>\<open>remove(task, arg)\<close>
  cancels by identity and is a no-op if the task is not scheduled. The field \<open>tasks\<close>
  lists the pending entries, each an identity with its period; time is abstracted, so
  the initial delay is not kept.
\<close>

definition Task_Schedule :: "task \<Rightarrow> nat \<Rightarrow> nat \<Rightarrow> state \<Rightarrow> state" where
  "Task_Schedule t delay period s = s\<lparr>tasks := tasks s @ [(t, period)]\<rparr>"

definition Task_Queue :: "task \<Rightarrow> state \<Rightarrow> state" where
  "Task_Queue t s = s\<lparr>tasks := tasks s @ [(t, 0)]\<rparr>"

definition Task_Remove :: "task \<Rightarrow> state \<Rightarrow> state" where
  "Task_Remove t s = s\<lparr>tasks := filter (\<lambda>e. fst e \<noteq> t) (tasks s)\<rparr>"

text \<open>
  Modelled from the spec: the terminal (\<^verbatim>\<open>terminal.h\<close> and \<^verbatim>\<open>game.h\<close> are not part of
  the repository). The spec keeps the rendering primitives outside the engine: a call
  draws on the screen and changes no variable of the file, and the screen is not part of
  the state.
\<close>

definition Game_ClearScreen :: "state \<Rightarrow> state" where
  "Game_ClearScreen s = s"

definition Game_DrawRect :: "nat \<Rightarrow> nat \<Rightarrow> nat \<Rightarrow> nat \<Rightarrow> state \<Rightarrow> state" where
  "Game_DrawRect x_min y_min x_max y_max s = s"

definition Game_SetColor :: "color \<Rightarrow> state \<Rightarrow> state" where
  "Game_SetColor col s = s"

definition Game_CharXY :: "char \<Rightarrow> uint8 \<Rightarrow> uint8 \<Rightarrow> state \<Rightarrow> state" where
  "Game_CharXY ch cx cy s = s"

definition Game_Printf :: "string \<Rightarrow> int list \<Rightarrow> state \<Rightarrow> state" where
  "Game_Printf fmt args s = s"

definition Game_HideCursor :: "state \<Rightarrow> state" where
  "Game_HideCursor s = s"

definition Game_ShowCursor :: "state \<Rightarrow> state" where
  "Game_ShowCursor s = s"

definition Game_Bell :: "state \<Rightarrow> state" where
  "Game_Bell s = s"

text \<open>
  Modelled from the spec: the game system. The receiver is registered for the round's
  duration; a log line and the end of the game are recorded in \<open>host\<close>, the most recent
  first.
\<close>

definition Game_RegisterPlayer1Receiver :: "state \<Rightarrow> state" where
  "Game_RegisterPlayer1Receiver s = s\<lparr>receiver := True\<rparr>"

definition Game_UnregisterPlayer1Receiver :: "state \<Rightarrow> state" where
  "Game_UnregisterPlayer1Receiver s = s\<lparr>receiver := False\<rparr>"

definition Game_Log :: "string \<Rightarrow> state \<Rightarrow> state" where
  "Game_Log msg s = s\<lparr>host := Log msg # host s\<rparr>"

definition Game_GameOver :: "state \<Rightarrow> state" where
  "Game_GameOver s = s\<lparr>host := EndGame # host s\<rparr>"

text \<open>
  \<^verbatim>\<open>random_int(lo, hi)\<close>: the library's generator. Its results are supplied by the
  environment as the stream \<open>rand\<close>, read in call order; no value is excluded.
\<close>

definition random_int :: "uint8 \<Rightarrow> uint8 \<Rightarrow> state \<Rightarrow> uint8 \<times> state" where
  "random_int lo hi s = (rand s (rand_pos s), s\<lparr>rand_pos := rand_pos s + 1\<rparr>)"

subsection \<open>The asteroid grid\<close>

text \<open>
  \<^verbatim>\<open>asteroids[c][r]\<close> is the byte at offset \<open>(MAP_HEIGHT - 1) * c + r\<close> of the array:
  with \<open>r = 17\<close> that is the first byte of the next line.
\<close>

definition offset :: "nat \<Rightarrow> nat \<Rightarrow> nat" where
  "offset c r = (MAP_HEIGHT - 1) * c + r"

definition rd :: "nat \<Rightarrow> nat \<Rightarrow> state \<Rightarrow> uint8" where
  "rd c r s = asteroids s (offset c r)"

definition wr :: "nat \<Rightarrow> nat \<Rightarrow> uint8 \<Rightarrow> state \<Rightarrow> state" where
  "wr c r v s = s\<lparr>asteroids := (asteroids s)(offset c r := v)\<rparr>"

text \<open>The index pairs the declaration \<^verbatim>\<open>asteroids[59][17]\<close> allows.\<close>

definition in_bounds :: "nat \<Rightarrow> nat \<Rightarrow> bool" where
  "in_bounds c r \<longleftrightarrow> c < MAP_WIDTH - 1 \<and> r < MAP_HEIGHT - 1"

subsection \<open>Display of score, difficulty, cooldown\<close>

definition UpdateDifficulty :: "state \<Rightarrow> state" where
  "UpdateDifficulty s =
     seq [Game_CharXY (CHR 0x0D) 0 (of_nat (MAP_HEIGHT + 4)),
          Game_Printf ''Difficulty: %d''
            [uint ((STARTING_DIFFICULTY - asteroidSpawnProbability s) + 1)]] s"

definition set_difficulty :: "uint8 \<Rightarrow> state \<Rightarrow> state" where
  "set_difficulty p s =
     seq [(\<lambda>s. s\<lparr>asteroidSpawnProbability := p\<rparr>), Task_Queue T_UpdateDifficulty] s"

text \<open>The conditional block of \<^verbatim>\<open>UpdateScore\<close>.\<close>

definition score_difficulty :: "state \<Rightarrow> state" where
  "score_difficulty s =
     (if game_score s = 25 then set_difficulty (STARTING_DIFFICULTY - 1) s
      else if game_score s = 35 then set_difficulty (STARTING_DIFFICULTY - 2) s
      else if game_score s = 45 then set_difficulty (STARTING_DIFFICULTY - 3) s
      else if game_score s = 70 then set_difficulty (STARTING_DIFFICULTY - 4) s
      else if game_score s = 90 then set_difficulty (STARTING_DIFFICULTY - 5) s
      else if game_score s = 100 then set_difficulty (STARTING_DIFFICULTY - 6) s
      else if game_score s = 110 then set_difficulty (STARTING_DIFFICULTY - 7) s
      else if game_score s = 120 then set_difficulty (STARTING_DIFFICULTY - 8) s
      else if game_score s = 130 then set_difficulty (STARTING_DIFFICULTY - 9) s
      else if game_score s = 150 then set_difficulty (STARTING_DIFFICULTY - 10) s
      else s)"

definition UpdateScore :: "state \<Rightarrow> state" where
  "UpdateScore s =
     seq [Game_CharXY (CHR 0x0D) 0 (of_nat (MAP_HEIGHT + 1)),
          Game_Printf ''Score: %d'' [sint (game_score s)],
          score_difficulty] s"



definition charge_bar :: "color \<Rightarrow> string \<Rightarrow> state \<Rightarrow> state" where
  "charge_bar col txt s =
     seq [Game_SetColor col, Game_Printf txt [], Game_SetColor ForegroundWhite,
          Game_Printf '']'' []] s"

definition UpdateShotCooldown :: "state \<Rightarrow> state" where
  "UpdateShotCooldown s =
     seq [Game_CharXY (CHR 0x0D) 0 (of_nat (MAP_HEIGHT + 3)),
          Game_Printf ''Weapon Charge: ['' [],
          (if game_shotCooldown s = 6 then charge_bar ForegroundGreen ''++++++''
           else if game_shotCooldown s = 5 then charge_bar ForegroundYellow ''+++++ ''
           else if game_shotCooldown s = 4 then charge_bar ForegroundYellow ''++++  ''
           else if game_shotCooldown s = 3 then charge_bar ForegroundYellow ''+++   ''
           else if game_shotCooldown s = 2 then charge_bar ForegroundRed ''++    ''
           else if game_shotCooldown s = 1 then charge_bar ForegroundRed ''+     ''
           else if game_shotCooldown s = 0 then Game_Printf ''      ]'' []
           else seq [])] s"

definition draw_ship :: "state \<Rightarrow> state" where
  "draw_ship s = Game_CharXY (game_c s) (game_x s) (game_y s) s"

definition ResetScreenColor :: "state \<Rightarrow> state" where
  "ResetScreenColor s =
     seq [Game_SetColor ForegroundCyan, draw_ship, Game_SetColor ForegroundWhite] s"

definition Help :: "state \<Rightarrow> state" where
  "Help s =
     seq [Game_Printf (''WASD to move the spaceship'' @ [CHR 0x0D, CHR 0x0A]
                        @ ''SPACEBAR to FIRE'' @ [CHR 0x0D, CHR 0x0A]) [],
          Game_Printf (''Weapon recharges over time. Difficulty increases with score.''
                        @ [CHR 0x0D, CHR 0x0A]) []] s"

subsection \<open>End of the round\<close>

text \<open>\<^verbatim>\<open>shots[k].status = v\<close>, and likewise for the other two fields.\<close>

definition set_status :: "nat \<Rightarrow> uint8 \<Rightarrow> state \<Rightarrow> state" where
  "set_status k v s = s\<lparr>shots := (shots s)[k := (shots s ! k)\<lparr>status := v\<rparr>]\<rparr>"

definition set_obj_x :: "nat \<Rightarrow> uint8 \<Rightarrow> state \<Rightarrow> state" where
  "set_obj_x k v s = s\<lparr>shots := (shots s)[k := (shots s ! k)\<lparr>obj_x := v\<rparr>]\<rparr>"

definition set_obj_y :: "nat \<Rightarrow> uint8 \<Rightarrow> state \<Rightarrow> state" where
  "set_obj_y k v s = s\<lparr>shots := (shots s)[k := (shots s ! k)\<lparr>obj_y := v\<rparr>]\<rparr>"

text \<open>The body of the loop of \<^verbatim>\<open>GameOver\<close> over the shots.\<close>

definition stop_shot :: "nat \<Rightarrow> state \<Rightarrow> state" where
  "stop_shot i s =
     (if status (shots s ! i) = 1
      then seq [set_status i 0, Task_Remove (T_MoveRightShot i)] s
      else s)"

definition GameOver :: "state \<Rightarrow> state" where
  "GameOver s =
     seq [Task_Remove T_GenerateAndShift,
          Task_Remove T_IncreaseScore,
          fold stop_shot [0..<MAX_SHOTS],
          Game_SetColor ForegroundRed,
          Game_CharXY (CHR 0x0D) 0 (of_nat (MAP_HEIGHT + 1)),
          Game_Printf ''Game Over! Final score: %d, Total shots fired: %d''
            [sint (game_score s), sint (game_shotsFired s)],
          Game_UnregisterPlayer1Receiver,
          Game_CharXY (CHR 0x0D) 0 (of_nat (MAP_HEIGHT + 5)),
          Game_ShowCursor,
          Game_GameOver] s"

text \<open>The conditional chain of \<^verbatim>\<open>UpdateHealth\<close>.\<close>

definition health_text :: "state \<Rightarrow> state" where
  "health_text s =
     (if game_health s \<ge> 3 then Game_Printf ''<3 <3 <3'' [] s
      else if game_health s = 2 then Game_Printf ''<3 <3   '' [] s
      else if game_health s = 1 then Game_Printf ''<3      '' [] s
      else if game_health s = 0 then seq [Game_Printf '':(      '' [], GameOver] s
      else s)"

definition UpdateHealth :: "state \<Rightarrow> state" where
  "UpdateHealth s =
     seq [Game_CharXY (CHR 0x0D) 0 (of_nat (MAP_HEIGHT + 2)),
          Game_Printf ''Health: '' [],
          Game_SetColor ForegroundRed,
          health_text,
          Game_SetColor ForegroundWhite] s"

definition IncreaseScore :: "state \<Rightarrow> state" where
  "IncreaseScore s =
     seq [(\<lambda>s. s\<lparr>game_score := game_score s + 1\<rparr>), Task_Queue T_UpdateScore] s"

subsection \<open>Start of a round\<close>

text \<open>The inner loop of the two that clear the grid, and the assignments to \<^verbatim>\<open>game\<close>.\<close>

definition clear_line :: "nat \<Rightarrow> state \<Rightarrow> state" where
  "clear_line i s = fold (\<lambda>j. wr i j 0) [0..<MAP_HEIGHT - 1] s"

definition init_game :: "state \<Rightarrow> state" where
  "init_game s =
     s\<lparr>game_x := 1, game_y := of_nat (MAP_HEIGHT div 2), game_c := CHR ''>'',
       game_score := 0, game_shotsFired := 0, game_health := 3, game_shotCooldown := 6\<rparr>"

definition Play :: "state \<Rightarrow> state" where
  "Play s =
     seq [Game_ClearScreen,
          Game_DrawRect 0 0 MAP_WIDTH MAP_HEIGHT,
          fold clear_line [0..<MAP_WIDTH - 1],
          init_game,
          Game_SetColor ForegroundCyan,
          draw_ship,
          Game_SetColor ForegroundWhite,
          Game_RegisterPlayer1Receiver,
          Game_HideCursor,
          UpdateScore,
          UpdateHealth,
          UpdateShotCooldown,
          UpdateDifficulty,
          Task_Schedule T_GenerateAndShift 500 1000,
          Task_Schedule T_IncreaseScore 2500 2500] s"

subsection \<open>Collision of the ship with an asteroid\<close>

text \<open>
  The block the file repeats in \<^verbatim>\<open>ShiftAsteroidColumns\<close> (twice) and in each of the four
  moves, with the cell \<open>(cx, cy)\<close> the ship is in.
\<close>

definition damage :: "state \<Rightarrow> state" where
  "damage s = (if game_health s > 0 then s\<lparr>game_health := game_health s - 1\<rparr> else s)"

definition collide :: "nat \<Rightarrow> nat \<Rightarrow> state \<Rightarrow> state" where
  "collide cx cy s =
     seq [wr cx cy 0,
          Game_SetColor BackgroundRed,
          Game_CharXY (CHR ''*'') (of_nat cx) (of_nat cy),
          Game_SetColor BackgroundBlack,
          Game_Bell,
          damage,
          Task_Queue T_UpdateHealth,
          Task_Schedule T_ResetScreenColor 250 0] s"

text \<open>After the position has changed: collision, or the ship drawn in its new cell.\<close>

definition arrive :: "state \<Rightarrow> state" where
  "arrive s =
     (if rd (unat (game_x s)) (unat (game_y s)) s \<noteq> 0
      then collide (unat (game_x s)) (unat (game_y s)) s
      else seq [Game_SetColor ForegroundCyan, draw_ship, Game_SetColor ForegroundWhite] s)"

subsection \<open>Ship movement\<close>

definition clear_ship :: "state \<Rightarrow> state" where
  "clear_ship s = Game_CharXY (CHR '' '') (game_x s) (game_y s) s"

definition MoveRight :: "state \<Rightarrow> state" where
  "MoveRight s =
     (if unat (game_x s) < MAP_WIDTH - 3
      then seq [clear_ship, (\<lambda>s. s\<lparr>game_x := game_x s + 1\<rparr>), arrive] s
      else s)"

definition MoveLeft :: "state \<Rightarrow> state" where
  "MoveLeft s =
     (if unat (game_x s) > 1
      then seq [clear_ship, (\<lambda>s. s\<lparr>game_x := game_x s - 1\<rparr>), arrive] s
      else s)"

definition MoveDown :: "state \<Rightarrow> state" where
  "MoveDown s =
     (if unat (game_y s) < MAP_HEIGHT - 1
      then seq [clear_ship, (\<lambda>s. s\<lparr>game_y := game_y s + 1\<rparr>), arrive] s
      else s)"

definition MoveUp :: "state \<Rightarrow> state" where
  "MoveUp s =
     (if unat (game_y s) > 1
      then seq [clear_ship, (\<lambda>s. s\<lparr>game_y := game_y s - 1\<rparr>), arrive] s
      else s)"

subsection \<open>The asteroid field\<close>

text \<open>
  The body of the loop of \<^verbatim>\<open>GenerateAsteroidColumn\<close>, in three steps: the first call of
  \<^verbatim>\<open>random_int\<close>, the test of \<^verbatim>\<open>randomCheck\<close> with the second call, the test of
  \<^verbatim>\<open>randomType\<close>.
\<close>

fun spawn_type :: "nat \<Rightarrow> uint8 \<times> state \<Rightarrow> state" where
  "spawn_type i (randomType, s) =
     (if randomType = 1
      then seq [wr MAX_COLUMNS i 1, Game_CharXY (CHR ''o'') (of_nat MAX_COLUMNS) (of_nat i)] s
      else seq [wr MAX_COLUMNS i 2, Game_CharXY (CHR ''O'') (of_nat MAX_COLUMNS) (of_nat i)] s)"

fun spawn_check :: "nat \<Rightarrow> uint8 \<times> state \<Rightarrow> state" where
  "spawn_check i (randomCheck, s) =
     (if randomCheck = 1
      then spawn_type i (random_int 1 2 s)
      else seq [wr MAX_COLUMNS i 0, Game_CharXY (CHR '' '') (of_nat MAX_COLUMNS) (of_nat i)] s)"

definition spawn_cell :: "nat \<Rightarrow> state \<Rightarrow> state" where
  "spawn_cell i s = spawn_check i (random_int 1 (asteroidSpawnProbability s) s)"

definition GenerateAsteroidColumn :: "state \<Rightarrow> state" where
  "GenerateAsteroidColumn s = fold spawn_cell [1..<MAP_HEIGHT] s"

text \<open>The loop over \<^verbatim>\<open>checkShots\<close>: whether an active shot is drawn in the cell.\<close>

definition foundShot :: "nat \<Rightarrow> nat \<Rightarrow> state \<Rightarrow> bool" where
  "foundShot column i s =
     list_ex (\<lambda>checkShots.
        status (shots s ! checkShots) \<noteq> 0
        \<and> unat (obj_x (shots s ! checkShots)) = column
        \<and> unat (obj_y (shots s ! checkShots)) = i) [0..<MAX_SHOTS]"

definition ship_at :: "nat \<Rightarrow> nat \<Rightarrow> state \<Rightarrow> bool" where
  "ship_at column i s \<longleftrightarrow> unat (game_x s) = column \<and> unat (game_y s) = i"

text \<open>
  The body of the inner loop of \<^verbatim>\<open>ShiftAsteroidColumns\<close>: the copy, then the chain of
  tests on the copied cell.
\<close>

definition copy_cell :: "nat \<Rightarrow> nat \<Rightarrow> state \<Rightarrow> state" where
  "copy_cell column i s = wr column i (rd (column + 1) i s) s"

definition show_cell :: "nat \<Rightarrow> nat \<Rightarrow> state \<Rightarrow> state" where
  "show_cell column i s =
     (if rd column i s = 0 \<and> \<not> ship_at column i s
      then (if \<not> foundShot column i s
            then Game_CharXY (CHR '' '') (of_nat column) (of_nat i) s else s)
      else if rd column i s = 1
      then (if ship_at column i s then collide column i s
            else Game_CharXY (CHR ''o'') (of_nat column) (of_nat i) s)
      else if rd column i s = 2
      then (if ship_at column i s then collide column i s
            else Game_CharXY (CHR ''O'') (of_nat column) (of_nat i) s)
      else s)"

definition shift_cell :: "nat \<Rightarrow> nat \<Rightarrow> state \<Rightarrow> state" where
  "shift_cell column i s = seq [copy_cell column i, show_cell column i] s"

definition shift_column :: "nat \<Rightarrow> state \<Rightarrow> state" where
  "shift_column column s = fold (shift_cell column) [1..<MAP_HEIGHT] s"

definition ShiftAsteroidColumns :: "state \<Rightarrow> state" where
  "ShiftAsteroidColumns s = fold shift_column [1..<MAP_WIDTH - 1] s"

definition GenerateAndShift :: "state \<Rightarrow> state" where
  "GenerateAndShift s = seq [GenerateAsteroidColumn, ShiftAsteroidColumns] s"

subsection \<open>The weapon\<close>

text \<open>
  The search loop of \<^verbatim>\<open>Shoot\<close> has no \<^verbatim>\<open>break\<close>: every idle slot overwrites the pointer
  found before it.
\<close>

definition find_unused :: "state \<Rightarrow> nat option" where
  "find_unused s =
     fold (\<lambda>i shot. if status (shots s ! i) = 0 then Some i else shot) [0..<MAX_SHOTS] None"

definition start_recharge :: "state \<Rightarrow> state" where
  "start_recharge s =
     (if gRechargingWeapon s = 0
      then seq [(\<lambda>s. s\<lparr>gRechargingWeapon := 1\<rparr>),
                Task_Schedule T_DecreaseCooldown RECHARGE_RATE RECHARGE_RATE] s
      else s)"

text \<open>The block of \<^verbatim>\<open>Shoot\<close> under \<^verbatim>\<open>if(shot)\<close>, with \<^verbatim>\<open>shot = &shots[k]\<close>.\<close>

definition fire :: "nat \<Rightarrow> state \<Rightarrow> state" where
  "fire k s =
     seq [(\<lambda>s. s\<lparr>game_shotCooldown := game_shotCooldown s - 3\<rparr>),
          set_status k 1,
          set_obj_y k (game_y s),
          set_obj_x k (game_x s + 1),
          Game_SetColor ForegroundYellow,
          Game_CharXY (CHR ''-'') (game_x s + 1) (game_y s),
          Game_SetColor ForegroundWhite,
          (\<lambda>s. s\<lparr>game_shotsFired := game_shotsFired s + 1\<rparr>),
          Task_Queue T_UpdateShotCooldown,
          Task_Schedule (T_MoveRightShot k) FIRE_SPEED FIRE_SPEED,
          start_recharge] s"

definition Shoot :: "state \<Rightarrow> state" where
  "Shoot s =
     (if game_shotCooldown s \<ge> 3
      then (case find_unused s of None \<Rightarrow> s | Some k \<Rightarrow> fire k s)
      else s)"

text \<open>\<^verbatim>\<open>MoveRightShot(o)\<close> with \<^verbatim>\<open>o = &shots[k]\<close>.\<close>

definition clear_shot :: "nat \<Rightarrow> state \<Rightarrow> state" where
  "clear_shot k s = Game_CharXY (CHR '' '') (obj_x (shots s ! k)) (obj_y (shots s ! k)) s"

definition shot_hit :: "nat \<Rightarrow> state \<Rightarrow> state" where
  "shot_hit k s =
     seq [wr (unat (obj_x (shots s ! k))) (unat (obj_y (shots s ! k))) 0,
          Game_SetColor BackgroundYellow,
          Game_CharXY (CHR ''*'') (obj_x (shots s ! k)) (obj_y (shots s ! k)),
          Game_SetColor BackgroundBlack,
          Game_Bell,
          set_status k 0,
          (\<lambda>s. s\<lparr>game_score := game_score s + 1\<rparr>),
          Task_Remove (T_MoveRightShot k),
          Task_Queue T_UpdateScore] s"

definition shot_arrive :: "nat \<Rightarrow> state \<Rightarrow> state" where
  "shot_arrive k s =
     (if rd (unat (obj_x (shots s ! k))) (unat (obj_y (shots s ! k))) s \<noteq> 0
      then shot_hit k s
      else seq [Game_SetColor ForegroundYellow,
                Game_CharXY (CHR ''-'') (obj_x (shots s ! k)) (obj_y (shots s ! k)),
                Game_SetColor ForegroundWhite] s)"

definition MoveRightShot :: "nat \<Rightarrow> state \<Rightarrow> state" where
  "MoveRightShot k s =
     (if unat (obj_x (shots s ! k)) < MAP_WIDTH - 2
      then seq [clear_shot k,
                (\<lambda>s. set_obj_x k (obj_x (shots s ! k) + 1) s),
                shot_arrive k] s
      else seq [clear_shot k, set_status k 0, Task_Remove (T_MoveRightShot k)] s)"

definition DecreaseCooldown :: "state \<Rightarrow> state" where
  "DecreaseCooldown s =
     (if game_shotCooldown s < 6
      then seq [(\<lambda>s. s\<lparr>game_shotCooldown := game_shotCooldown s + 1\<rparr>),
                Task_Queue T_UpdateShotCooldown] s
      else seq [(\<lambda>s. s\<lparr>gRechargingWeapon := 0\<rparr>), Task_Remove T_DecreaseCooldown] s)"

subsection \<open>Input\<close>

definition Receiver :: "char \<Rightarrow> state \<Rightarrow> state" where
  "Receiver c s =
     (if c = CHR ''a'' \<or> c = CHR ''A'' then MoveLeft s
      else if c = CHR ''d'' \<or> c = CHR ''D'' then MoveRight s
      else if c = CHR ''w'' \<or> c = CHR ''W'' then MoveUp s
      else if c = CHR ''s'' \<or> c = CHR ''S'' then MoveDown s
      else if c = CHR '' '' then Shoot s
      else s)"

subsection \<open>The host sub-command\<close>

text \<open>
  \<^verbatim>\<open>strcasecmp\<close> of the C library on strings that end at their first NUL: zero when the
  two are equal up to the case of ASCII letters, else the difference of the first two
  bytes that differ.
\<close>

definition tolower :: "char \<Rightarrow> char" where
  "tolower c =
     (if 65 \<le> (of_char c :: nat) \<and> (of_char c :: nat) \<le> 90
      then char_of ((of_char c :: nat) + 32) else c)"

fun casecmp :: "string \<Rightarrow> string \<Rightarrow> int" where
  "casecmp [] [] = 0"
| "casecmp [] (b # bs) = - of_char (tolower b)"
| "casecmp (a # as) [] = of_char (tolower a)"
| "casecmp (a # as) (b # bs) =
     (if tolower a = tolower b then casecmp as bs
      else of_char (tolower a) - of_char (tolower b))"

definition strcasecmp :: "string \<Rightarrow> string \<Rightarrow> int" where
  "strcasecmp a b =
     casecmp (takeWhile (\<lambda>c. c \<noteq> CHR 0x00) a) (takeWhile (\<lambda>c. c \<noteq> CHR 0x00) b)"

datatype fault = Bad_argv | Out_of_bounds

text \<open>
  \<^verbatim>\<open>Callback(argc, argv)\<close>: \<open>argv\<close> lists the strings that the array \<^verbatim>\<open>argv[]\<close> holds
  from index 0 on, whatever \<open>argc\<close> says of them. The file reads \<^verbatim>\<open>argv[0]\<close> on every
  path; with no string there the read has no defined result (\<open>Bad_argv\<close>).
\<close>

definition too_few :: "int \<Rightarrow> state \<Rightarrow> state" where
  "too_few argc s = (if argc = 0 then Game_Log ''too few args'' s else s)"

definition reset_or_reject :: "string \<Rightarrow> state \<Rightarrow> state" where
  "reset_or_reject argv0 s =
     (if strcasecmp argv0 ''reset'' = 0
      then seq [(\<lambda>s. s\<lparr>game_score := 0\<rparr>), Game_Log ''Scores reset''] s
      else Game_Log ''command not supported'' s)"

definition Callback :: "int \<Rightarrow> string list \<Rightarrow> state \<Rightarrow> fault + state" where
  "Callback argc argv s =
     (case argv of
        [] \<Rightarrow> Inl Bad_argv
      | argv0 # _ \<Rightarrow> Inr (seq [too_few argc, reset_or_reject argv0] s))"

subsection \<open>Executions\<close>

text \<open>
  Modelled from the spec: how the library drives the file. One event is one call into
  the file, run to completion (the spec's cooperative, single-threaded execution): the
  host commands \<^verbatim>\<open>play\<close> and \<^verbatim>\<open>help\<close>, a host sub-command, a byte for the receiver while it
  is registered, or a pending task. A one-shot entry leaves the list when it runs. Which
  pending task or input comes next is not fixed: time is abstracted.
\<close>

datatype event =
    Cmd_Play
  | Cmd_Help
  | Cmd_Callback int "string list"
  | Rx char
  | Tick task

fun run_task :: "task \<Rightarrow> state \<Rightarrow> state" where
  "run_task T_GenerateAndShift s = GenerateAndShift s"
| "run_task T_IncreaseScore s = IncreaseScore s"
| "run_task (T_MoveRightShot k) s = MoveRightShot k s"
| "run_task T_DecreaseCooldown s = DecreaseCooldown s"
| "run_task T_UpdateScore s = UpdateScore s"
| "run_task T_UpdateHealth s = UpdateHealth s"
| "run_task T_UpdateShotCooldown s = UpdateShotCooldown s"
| "run_task T_UpdateDifficulty s = UpdateDifficulty s"
| "run_task T_ResetScreenColor s = ResetScreenColor s"

text \<open>The entry of \<open>t\<close> that runs leaves the list if it is one-shot.\<close>

definition take_entry :: "task \<times> nat \<Rightarrow> state \<Rightarrow> state" where
  "take_entry e s = (if snd e = 0 then s\<lparr>tasks := remove1 e (tasks s)\<rparr> else s)"

fun exec :: "event \<Rightarrow> state \<Rightarrow> state option" where
  "exec Cmd_Play s = Some (Play s)"
| "exec Cmd_Help s = Some (Help s)"
| "exec (Cmd_Callback argc argv) s =
     (case Callback argc argv s of Inl _ \<Rightarrow> None | Inr s' \<Rightarrow> Some s')"
| "exec (Rx c) s = (if receiver s then Some (Receiver c s) else None)"
| "exec (Tick t) s =
     (case find (\<lambda>e. fst e = t) (tasks s) of
        None \<Rightarrow> None
      | Some e \<Rightarrow> Some (run_task t (take_entry e s)))"

fun run :: "event list \<Rightarrow> state \<Rightarrow> state option" where
  "run [] s = Some s"
| "run (e # es) s = (case exec e s of None \<Rightarrow> None | Some s' \<Rightarrow> run es s')"

text \<open>
  The state when \<^verbatim>\<open>StephenGame_Init\<close> has run: the statics zero, the spawn probability
  at its initialiser, nothing scheduled. \<open>boot r\<close> is the one with the random stream
  \<open>r\<close> and zeros after the array.
\<close>

definition idle_shot :: char_object where
  "idle_shot = \<lparr>obj_x = 0, obj_y = 0, status = 0\<rparr>"

definition booted :: "state \<Rightarrow> bool" where
  "booted s \<longleftrightarrow>
     game_x s = 0 \<and> game_y s = 0 \<and> game_health s = 0 \<and> game_shotCooldown s = 0
     \<and> game_score s = 0 \<and> game_shotsFired s = 0
     \<and> (\<forall>a < (MAP_WIDTH - 1) * (MAP_HEIGHT - 1). asteroids s a = 0)
     \<and> shots s = [idle_shot, idle_shot, idle_shot, idle_shot, idle_shot]
     \<and> gRechargingWeapon s = 0 \<and> asteroidSpawnProbability s = STARTING_DIFFICULTY
     \<and> tasks s = [] \<and> \<not> receiver s \<and> host s = [] \<and> rand_pos s = 0"

definition boot :: "(nat \<Rightarrow> uint8) \<Rightarrow> state" where
  "boot r =
     \<lparr>game_x = 0, game_y = 0, game_c = CHR 0x00, game_health = 0, game_shotCooldown = 0,
      game_score = 0, game_shotsFired = 0, game_id = 0,
      asteroids = (\<lambda>a. 0),
      shots = [idle_shot, idle_shot, idle_shot, idle_shot, idle_shot],
      gRechargingWeapon = 0, asteroidSpawnProbability = STARTING_DIFFICULTY,
      tasks = [], receiver = False, host = [], rand = r, rand_pos = 0\<rparr>"

inductive reachable :: "state \<Rightarrow> bool" where
  start: "booted s \<Longrightarrow> reachable s"
| step: "reachable s \<Longrightarrow> exec e s = Some s' \<Longrightarrow> reachable s'"

text \<open>The states of a round: from a \<^verbatim>\<open>Play\<close> on, whatever follows.\<close>

inductive in_round :: "state \<Rightarrow> bool" where
  played: "reachable s \<Longrightarrow> in_round (Play s)"
| later: "in_round s \<Longrightarrow> exec e s = Some s' \<Longrightarrow> in_round s'"

subsection \<open>The two grid functions with every array access checked\<close>

text \<open>
  C performs no bounds check. To state which index pairs the file uses, the loops of
  \<^verbatim>\<open>GenerateAsteroidColumn\<close> and \<^verbatim>\<open>ShiftAsteroidColumns\<close> are given a second time, each
  access to \<^verbatim>\<open>asteroids\<close> first compared with the declared bounds: an index pair outside
  them ends the run with \<open>Out_of_bounds\<close>.
\<close>

definition rd_chk :: "nat \<Rightarrow> nat \<Rightarrow> state \<Rightarrow> fault + uint8" where
  "rd_chk c r s = (if in_bounds c r then Inr (rd c r s) else Inl Out_of_bounds)"

definition wr_chk :: "nat \<Rightarrow> nat \<Rightarrow> uint8 \<Rightarrow> state \<Rightarrow> fault + state" where
  "wr_chk c r v s = (if in_bounds c r then Inr (wr c r v s) else Inl Out_of_bounds)"

definition ok :: "(state \<Rightarrow> state) \<Rightarrow> state \<Rightarrow> fault + state" where
  "ok f s = Inr (f s)"

fun seq_chk :: "(state \<Rightarrow> fault + state) list \<Rightarrow> state \<Rightarrow> fault + state" where
  "seq_chk [] s = Inr s"
| "seq_chk (f # fs) s = (case f s of Inl e \<Rightarrow> Inl e | Inr s' \<Rightarrow> seq_chk fs s')"

fun fold_chk :: "(nat \<Rightarrow> state \<Rightarrow> fault + state) \<Rightarrow> nat list \<Rightarrow> state \<Rightarrow> fault + state" where
  "fold_chk f [] s = Inr s"
| "fold_chk f (x # xs) s = (case f x s of Inl e \<Rightarrow> Inl e | Inr s' \<Rightarrow> fold_chk f xs s')"

fun spawn_type_chk :: "nat \<Rightarrow> uint8 \<times> state \<Rightarrow> fault + state" where
  "spawn_type_chk i (randomType, s) =
     (if randomType = 1
      then seq_chk [wr_chk MAX_COLUMNS i 1,
                    ok (Game_CharXY (CHR ''o'') (of_nat MAX_COLUMNS) (of_nat i))] s
      else seq_chk [wr_chk MAX_COLUMNS i 2,
                    ok (Game_CharXY (CHR ''O'') (of_nat MAX_COLUMNS) (of_nat i))] s)"

fun spawn_check_chk :: "nat \<Rightarrow> uint8 \<times> state \<Rightarrow> fault + state" where
  "spawn_check_chk i (randomCheck, s) =
     (if randomCheck = 1
      then spawn_type_chk i (random_int 1 2 s)
      else seq_chk [wr_chk MAX_COLUMNS i 0,
                    ok (Game_CharXY (CHR '' '') (of_nat MAX_COLUMNS) (of_nat i))] s)"

definition spawn_cell_chk :: "nat \<Rightarrow> state \<Rightarrow> fault + state" where
  "spawn_cell_chk i s = spawn_check_chk i (random_int 1 (asteroidSpawnProbability s) s)"

definition GenerateAsteroidColumn_chk :: "state \<Rightarrow> fault + state" where
  "GenerateAsteroidColumn_chk s = fold_chk spawn_cell_chk [1..<MAP_HEIGHT] s"

definition collide_chk :: "nat \<Rightarrow> nat \<Rightarrow> state \<Rightarrow> fault + state" where
  "collide_chk cx cy s =
     seq_chk [wr_chk cx cy 0,
              ok (Game_SetColor BackgroundRed),
              ok (Game_CharXY (CHR ''*'') (of_nat cx) (of_nat cy)),
              ok (Game_SetColor BackgroundBlack),
              ok Game_Bell,
              ok damage,
              ok (Task_Queue T_UpdateHealth),
              ok (Task_Schedule T_ResetScreenColor 250 0)] s"

definition copy_cell_chk :: "nat \<Rightarrow> nat \<Rightarrow> state \<Rightarrow> fault + state" where
  "copy_cell_chk column i s =
     (case rd_chk (column + 1) i s of
        Inl e \<Rightarrow> Inl e
      | Inr v \<Rightarrow> wr_chk column i v s)"

definition show_cell_chk :: "nat \<Rightarrow> nat \<Rightarrow> state \<Rightarrow> fault + state" where
  "show_cell_chk column i s =
     (case rd_chk column i s of
        Inl e \<Rightarrow> Inl e
      | Inr v \<Rightarrow>
          if v = 0 \<and> \<not> ship_at column i s
          then (if \<not> foundShot column i s
                then Inr (Game_CharXY (CHR '' '') (of_nat column) (of_nat i) s) else Inr s)
          else if v = 1
          then (if ship_at column i s then collide_chk column i s
                else Inr (Game_CharXY (CHR ''o'') (of_nat column) (of_nat i) s))
          else if v = 2
          then (if ship_at column i s then collide_chk column i s
                else Inr (Game_CharXY (CHR ''O'') (of_nat column) (of_nat i) s))
          else Inr s)"

definition shift_cell_chk :: "nat \<Rightarrow> nat \<Rightarrow> state \<Rightarrow> fault + state" where
  "shift_cell_chk column i s = seq_chk [copy_cell_chk column i, show_cell_chk column i] s"

definition shift_column_chk :: "nat \<Rightarrow> state \<Rightarrow> fault + state" where
  "shift_column_chk column s = fold_chk (shift_cell_chk column) [1..<MAP_HEIGHT] s"

definition ShiftAsteroidColumns_chk :: "state \<Rightarrow> fault + state" where
  "ShiftAsteroidColumns_chk s = fold_chk shift_column_chk [1..<MAP_WIDTH - 1] s"

subsection \<open>Concrete grids\<close>

text \<open>
  A grid given by the list of its non-zero bytes, for the concrete executions below:
  \<open>grid_of al\<close> has the byte \<open>v\<close> at offset \<open>a\<close> for the first \<open>(a, v)\<close> of \<open>al\<close>, and zero
  elsewhere; \<open>put\<close> is the update of such a list.
\<close>

definition grid_of :: "(nat \<times> uint8) list \<Rightarrow> nat \<Rightarrow> uint8" where
  "grid_of al a = (case map_of al a of None \<Rightarrow> 0 | Some v \<Rightarrow> v)"

definition put :: "nat \<Rightarrow> uint8 \<Rightarrow> (nat \<times> uint8) list \<Rightarrow> (nat \<times> uint8) list" where
  "put a v al =
     (if v = 0 then filter (\<lambda>e. fst e \<noteq> a) al else (a, v) # filter (\<lambda>e. fst e \<noteq> a) al)"

section \<open>Notions for the properties\<close>

subsection \<open>What a piece of code leaves unchanged\<close>

text \<open>
  \<open>grid_only s t\<close>: from \<open>s\<close> to \<open>t\<close> nothing but the grid and the position in the random
  stream has changed. \<open>collided s t\<close>: nothing but the grid, the health (which has not
  risen) and the task list (which got health updates and colour resets appended).
  \<open>released n s t\<close>: the loop of \<^verbatim>\<open>GameOver\<close> has gone over the slots below \<open>n\<close>.
\<close>

definition grid_only :: "state \<Rightarrow> state \<Rightarrow> bool" where
  "grid_only s t \<longleftrightarrow>
     game_x t = game_x s \<and> game_y t = game_y s \<and> game_c t = game_c s
     \<and> game_health t = game_health s \<and> game_shotCooldown t = game_shotCooldown s
     \<and> game_score t = game_score s \<and> game_shotsFired t = game_shotsFired s
     \<and> game_id t = game_id s \<and> shots t = shots s
     \<and> gRechargingWeapon t = gRechargingWeapon s
     \<and> asteroidSpawnProbability t = asteroidSpawnProbability s
     \<and> tasks t = tasks s \<and> receiver t = receiver s \<and> host t = host s \<and> rand t = rand s"

definition collided :: "state \<Rightarrow> state \<Rightarrow> bool" where
  "collided s t \<longleftrightarrow>
     game_x t = game_x s \<and> game_y t = game_y s \<and> game_c t = game_c s
     \<and> game_health t \<le> game_health s \<and> game_shotCooldown t = game_shotCooldown s
     \<and> game_score t = game_score s \<and> game_shotsFired t = game_shotsFired s
     \<and> game_id t = game_id s \<and> shots t = shots s
     \<and> gRechargingWeapon t = gRechargingWeapon s
     \<and> asteroidSpawnProbability t = asteroidSpawnProbability s
     \<and> (\<exists>q. tasks t = tasks s @ q \<and> set q \<subseteq> {(T_UpdateHealth, 0), (T_ResetScreenColor, 0)})
     \<and> receiver t = receiver s \<and> host t = host s \<and> rand t = rand s"

definition released :: "nat \<Rightarrow> state \<Rightarrow> state \<Rightarrow> bool" where
  "released n s t \<longleftrightarrow>
     game_x t = game_x s \<and> game_y t = game_y s \<and> game_c t = game_c s
     \<and> game_health t = game_health s \<and> game_shotCooldown t = game_shotCooldown s
     \<and> game_score t = game_score s \<and> game_shotsFired t = game_shotsFired s
     \<and> game_id t = game_id s \<and> asteroids t = asteroids s
     \<and> gRechargingWeapon t = gRechargingWeapon s
     \<and> asteroidSpawnProbability t = asteroidSpawnProbability s
     \<and> receiver t = receiver s \<and> host t = host s \<and> rand t = rand s
     \<and> rand_pos t = rand_pos s
     \<and> tasks t =
         filter (\<lambda>e. \<forall>i<n. status (shots s ! i) = 1 \<longrightarrow> fst e \<noteq> T_MoveRightShot i) (tasks s)
     \<and> length (shots t) = length (shots s)
     \<and> (\<forall>j. shots t ! j =
           (if j < n \<and> j < length (shots s) \<and> status (shots s ! j) = 1
            then (shots s ! j)\<lparr>status := 0\<rparr> else shots s ! j))"

subsection \<open>The cells the ship is confined to\<close>

text \<open>
  \<^verbatim>\<open>Game_DrawRect(0, 0, MAP_WIDTH, MAP_HEIGHT)\<close> draws the walls on the columns 0 and
  \<open>MAP_WIDTH\<close> and the rows 0 and \<open>MAP_HEIGHT\<close>; \<open>interior\<close> is what lies strictly between
  them. \<open>in_field\<close> is the part of it that the guards of the four moves keep the ship
  in.
\<close>

definition interior :: "nat \<Rightarrow> nat \<Rightarrow> bool" where
  "interior cx cy \<longleftrightarrow> 0 < cx \<and> cx < MAP_WIDTH \<and> 0 < cy \<and> cy < MAP_HEIGHT"

definition in_field :: "nat \<Rightarrow> nat \<Rightarrow> bool" where
  "in_field cx cy \<longleftrightarrow> 1 \<le> cx \<and> cx \<le> MAP_WIDTH - 3 \<and> 1 \<le> cy \<and> cy \<le> MAP_HEIGHT - 1"

definition pos_ok :: "state \<Rightarrow> bool" where
  "pos_ok s \<longleftrightarrow> in_field (unat (game_x s)) (unat (game_y s))"

subsection \<open>The end of a round, as the host and the scheduler see it\<close>



subsection \<open>The difficulty ramp\<close>

text \<open>
  The scores that \<^verbatim>\<open>UpdateScore\<close> compares with, in the file and in its second copy.
  \<open>level ths v\<close> is the number of thresholds that the score \<open>v\<close> has reached. \<open>ramp_ok\<close>:
  the spawn probability has not been lowered by more steps than the score has reached
  thresholds.
\<close>

definition thresholds :: "int list" where
  "thresholds = [25, 35, 45, 70, 90, 100, 110, 120, 130, 150]"


definition level :: "int list \<Rightarrow> int \<Rightarrow> nat" where
  "level ths v = length (filter (\<lambda>t. t \<le> v) ths)"


subsection \<open>Shot slots and their advance tasks\<close>

text \<open>
  \<open>advance_tasks k s\<close> counts the entries of \<^verbatim>\<open>MoveRightShot\<close> for the slot \<open>k\<close> in the task
  list. \<open>shots_ok\<close>: there are \<open>MAX_SHOTS\<close> slots, each idle (0) or active (1), an active
  slot has exactly one such entry and an idle slot none, and every such entry is
  periodic with the period \<open>FIRE_SPEED\<close> and belongs to one of the slots.
\<close>

definition is_adv :: "task \<Rightarrow> bool" where
  "is_adv t = (case t of T_MoveRightShot _ \<Rightarrow> True | _ \<Rightarrow> False)"

definition advance_tasks :: "nat \<Rightarrow> state \<Rightarrow> nat" where
  "advance_tasks k s = length (filter (\<lambda>e. fst e = T_MoveRightShot k) (tasks s))"

definition shots_ok :: "state \<Rightarrow> bool" where
  "shots_ok s \<longleftrightarrow>
     length (shots s) = MAX_SHOTS
     \<and> (\<forall>k \<in> {0..<MAX_SHOTS}.
          (status (shots s ! k) = 0 \<or> status (shots s ! k) = 1)
          \<and> advance_tasks k s = (if status (shots s ! k) = 1 then 1 else 0))
     \<and> (\<forall>e \<in> set (tasks s).
          case fst e of T_MoveRightShot k \<Rightarrow> k < MAX_SHOTS \<and> snd e = FIRE_SPEED | _ \<Rightarrow> True)"

text \<open>\<open>quiet s t\<close>: from \<open>s\<close> to \<open>t\<close> the slots are the same and the task list has only got
  entries appended that are no advance tasks.\<close>

definition quiet :: "state \<Rightarrow> state \<Rightarrow> bool" where
  "quiet s t \<longleftrightarrow>
     shots t = shots s \<and> (\<exists>q. tasks t = tasks s @ q \<and> (\<forall>e \<in> set q. \<not> is_adv (fst e)))"

subsection \<open>Concrete executions\<close>

text \<open>
  A random stream for the first run of \<^verbatim>\<open>GenerateAsteroidColumn\<close>: a roll of 1 in the
  first call of a row places an asteroid, the roll after it chooses the type. With
  \<open>dice\<close> the rows 9 to 13 of the trailing column receive an asteroid, and the shift of
  the same tick moves them to column 57.
\<close>

definition rolls :: "uint8 list" where
  "rolls = [2, 2, 2, 2, 2, 2, 2, 2, 1, 1, 1, 2, 1, 2, 1, 1, 1, 2, 2, 2, 2, 2]"

definition dice :: "nat \<Rightarrow> uint8" where
  "dice n = (if n < length rolls then rolls ! n else 2)"

text \<open>
  The start of a round, the ship moved 54 cells to the right, and the first tick of the
  field; \<open>field_state\<close> is the state this execution ends in.
\<close>

definition approach :: "event list" where
  "approach = Cmd_Play # replicate 54 (Rx (CHR ''d'')) @ [Tick T_GenerateAndShift]"

definition field_state :: state where
  "field_state =
     \<lparr>game_x = 55, game_y = 9, game_c = CHR ''>'', game_health = 3, game_shotCooldown = 6,
      game_score = 0, game_shotsFired = 0, game_id = 0,
      asteroids = grid_of [(982, 2), (981, 1), (980, 2), (979, 2), (978, 1)],
      shots = [idle_shot, idle_shot, idle_shot, idle_shot, idle_shot],
      gRechargingWeapon = 0, asteroidSpawnProbability = STARTING_DIFFICULTY,
      tasks = [(T_GenerateAndShift, 1000), (T_IncreaseScore, 2500)],
      receiver = True, host = [], rand = dice, rand_pos = 22\<rparr>"

text \<open>\<open>n\<close> ticks of the score, the display task each of them queues run right after it.\<close>

definition survive :: "nat \<Rightarrow> event list" where
  "survive n = concat (replicate n [Tick T_IncreaseScore, Tick T_UpdateScore])"

text \<open>
  The ship runs into three of the asteroids of column 57, the health display queued by
  each collision run right after it: \<open>third_hit\<close> ends with the collision that brings the
  health to 0, and in \<open>three_hits\<close> the health display that follows ends the round. \<open>first_round\<close> is a round played to this end after the score has reached 25,
  \<open>fire_and_crash\<close> one in which the ship has fired just before.
\<close>

definition third_hit :: "event list" where
  "third_hit =
     [Rx (CHR ''d''), Rx (CHR ''d''), Tick T_UpdateHealth,
      Rx (CHR ''s''), Tick T_UpdateHealth,
      Rx (CHR ''s'')]"

definition three_hits :: "event list" where
  "three_hits = third_hit @ [Tick T_UpdateHealth]"

definition first_round :: "event list" where
  "first_round = survive 25 @ three_hits"

definition fire_and_crash :: "event list" where
  "fire_and_crash = Rx (CHR '' '') # three_hits"

text \<open>The tasks that \<^verbatim>\<open>GameOver\<close> removes, given the state it is called in.\<close>

definition cancelled :: "state \<Rightarrow> task \<Rightarrow> bool" where
  "cancelled s t =
     (case t of
        T_GenerateAndShift \<Rightarrow> True
      | T_IncreaseScore \<Rightarrow> True
      | T_MoveRightShot i \<Rightarrow> i < MAX_SHOTS \<and> status (shots s ! i) = 1
      | _ \<Rightarrow> False)"

text \<open>The host sub-command with \<^verbatim>\<open>argc = 0\<close> when \<^verbatim>\<open>argv[0]\<close> holds \<^verbatim>\<open>"reset"\<close>.\<close>

definition reset_without_args :: "event list" where
  "reset_without_args = [Cmd_Play, Tick T_IncreaseScore, Cmd_Callback 0 [''reset'']]"






text \<open>
  \<open>aimed\<close>: the state after \<open>approach\<close> and a shot, which is one cell away from the asteroid
  in front of the ship. \<open>far_shot\<close>: the state after \<open>far_shot_run\<close>, where a shot fired at
  the start of the round has crossed the empty field and reached column 58.
\<close>

definition far_shot_run :: "event list" where
  "far_shot_run = [Cmd_Play, Rx (CHR '' '')] @ replicate 56 (Tick (T_MoveRightShot 4))"

definition aimed :: state where
  "aimed =
     field_state\<lparr>game_shotCooldown := 3, game_shotsFired := 1,
       shots := [idle_shot, idle_shot, idle_shot, idle_shot,
                 \<lparr>obj_x = 56, obj_y = 9, status = 1\<rparr>],
       gRechargingWeapon := 1,
       tasks := [(T_GenerateAndShift, 1000), (T_IncreaseScore, 2500), (T_UpdateShotCooldown, 0),
                 (T_MoveRightShot 4, FIRE_SPEED), (T_DecreaseCooldown, RECHARGE_RATE)]\<rparr>"

definition far_shot :: state where
  "far_shot =
     \<lparr>game_x = 1, game_y = 9, game_c = CHR ''>'', game_health = 3, game_shotCooldown = 3,
      game_score = 0, game_shotsFired = 1, game_id = 0, asteroids = grid_of [],
      shots = [idle_shot, idle_shot, idle_shot, idle_shot,
               \<lparr>obj_x = 58, obj_y = 9, status = 1\<rparr>],
      gRechargingWeapon = 1, asteroidSpawnProbability = STARTING_DIFFICULTY,
      tasks = [(T_GenerateAndShift, 1000), (T_IncreaseScore, 2500), (T_UpdateShotCooldown, 0),
               (T_MoveRightShot 4, FIRE_SPEED), (T_DecreaseCooldown, RECHARGE_RATE)],
      receiver = True, host = [], rand = dice, rand_pos = 0\<rparr>"

section \<open>Properties\<close>

subsection \<open>Loops and frames\<close>

lemmas lib_defs = Task_Schedule_def Task_Queue_def Task_Remove_def
  Game_ClearScreen_def Game_DrawRect_def Game_SetColor_def Game_CharXY_def Game_Printf_def
  Game_HideCursor_def Game_ShowCursor_def Game_Bell_def Game_RegisterPlayer1Receiver_def
  Game_UnregisterPlayer1Receiver_def Game_Log_def Game_GameOver_def random_int_def

lemma fold_rel:
  assumes refl: "\<And>s. R s s"
    and trans: "\<And>s t u. R s t \<Longrightarrow> R t u \<Longrightarrow> R s u"
    and step: "\<And>x s. R s (f x s)"
  shows "R s (fold f xs s)"
proof (induction xs arbitrary: s)
  case Nil
  show ?case by (simp add: refl)
next
  case (Cons x xs)
  have "R s (f x s)" by (rule step)
  moreover have "R (f x s) (fold f xs (f x s))" by (rule Cons.IH)
  ultimately show ?case by (simp add: trans)
qed

lemma grid_only_refl: "grid_only s s"
  by (simp add: grid_only_def)

lemma grid_only_trans: "grid_only s t \<Longrightarrow> grid_only t u \<Longrightarrow> grid_only s u"
  by (simp add: grid_only_def)

lemma grid_only_wr: "grid_only s (wr c r v s)"
  by (simp add: grid_only_def wr_def)

lemma grid_only_clear_line: "grid_only s (clear_line i s)"
  unfolding clear_line_def
  by (rule fold_rel) (auto intro: grid_only_refl grid_only_trans grid_only_wr)

lemma grid_only_clear: "grid_only s (fold clear_line xs s)"
  by (rule fold_rel) (auto intro: grid_only_refl grid_only_trans grid_only_clear_line)

lemma grid_only_spawn_cell: "grid_only s (spawn_cell i s)"
  by (simp add: grid_only_def spawn_cell_def lib_defs wr_def)

lemma grid_only_Generate: "grid_only s (GenerateAsteroidColumn s)"
  unfolding GenerateAsteroidColumn_def
  by (rule fold_rel) (auto intro: grid_only_refl grid_only_trans grid_only_spawn_cell)

lemma collided_refl: "collided s s"
  by (simp add: collided_def)

lemma collided_trans: "collided s t \<Longrightarrow> collided t u \<Longrightarrow> collided s u"
  by (auto simp: collided_def)


lemma word_dec_le: "0 < (h::uint8) \<Longrightarrow> h - 1 \<le> h"
  by unat_arith

lemma collided_collide: "collided s (collide cx cy s)"
  by (simp add: collided_def collide_def damage_def lib_defs wr_def word_dec_le)

lemma collided_wr: "collided s (wr c r v s)"
  by (simp add: collided_def wr_def)

lemma collided_shift_cell: "collided s (shift_cell column i s)"
proof -
  have a: "collided s (copy_cell column i s)"
    by (simp add: copy_cell_def collided_wr)
  have b: "collided t (show_cell column i t)" for t
    by (simp add: show_cell_def collided_collide collided_refl lib_defs)
  show ?thesis
    using collided_trans [OF a b] by (simp add: shift_cell_def)
qed

lemma collided_shift_column: "collided s (shift_column column s)"
  unfolding shift_column_def
  by (rule fold_rel) (auto intro: collided_refl collided_trans collided_shift_cell)

lemma collided_Shift: "collided s (ShiftAsteroidColumns s)"
  unfolding ShiftAsteroidColumns_def
  by (rule fold_rel) (auto intro: collided_refl collided_trans collided_shift_column)

lemma grid_only_collided: "grid_only s t \<Longrightarrow> collided s t"
  by (simp add: grid_only_def collided_def)

lemma collided_GenerateAndShift: "collided s (GenerateAndShift s)"
  using collided_trans [OF grid_only_collided [OF grid_only_Generate] collided_Shift]
  by (simp add: GenerateAndShift_def)

lemma collided_arrive: "collided s (arrive s)"
  by (simp add: arrive_def collided_collide collided_refl draw_ship_def lib_defs)

lemma clear_fields [simp]:
  "game_x (fold clear_line xs s) = game_x s"
  "game_y (fold clear_line xs s) = game_y s"
  "game_c (fold clear_line xs s) = game_c s"
  "game_health (fold clear_line xs s) = game_health s"
  "game_shotCooldown (fold clear_line xs s) = game_shotCooldown s"
  "game_score (fold clear_line xs s) = game_score s"
  "game_shotsFired (fold clear_line xs s) = game_shotsFired s"
  "game_id (fold clear_line xs s) = game_id s"
  "shots (fold clear_line xs s) = shots s"
  "gRechargingWeapon (fold clear_line xs s) = gRechargingWeapon s"
  "asteroidSpawnProbability (fold clear_line xs s) = asteroidSpawnProbability s"
  "tasks (fold clear_line xs s) = tasks s"
  "receiver (fold clear_line xs s) = receiver s"
  "host (fold clear_line xs s) = host s"
  "rand (fold clear_line xs s) = rand s"
  using grid_only_clear [of s xs] by (simp_all add: grid_only_def collided_def)

lemma Generate_fields [simp]:
  "game_x (GenerateAsteroidColumn s) = game_x s"
  "game_y (GenerateAsteroidColumn s) = game_y s"
  "game_c (GenerateAsteroidColumn s) = game_c s"
  "game_health (GenerateAsteroidColumn s) = game_health s"
  "game_shotCooldown (GenerateAsteroidColumn s) = game_shotCooldown s"
  "game_score (GenerateAsteroidColumn s) = game_score s"
  "game_shotsFired (GenerateAsteroidColumn s) = game_shotsFired s"
  "game_id (GenerateAsteroidColumn s) = game_id s"
  "shots (GenerateAsteroidColumn s) = shots s"
  "gRechargingWeapon (GenerateAsteroidColumn s) = gRechargingWeapon s"
  "asteroidSpawnProbability (GenerateAsteroidColumn s) = asteroidSpawnProbability s"
  "tasks (GenerateAsteroidColumn s) = tasks s"
  "receiver (GenerateAsteroidColumn s) = receiver s"
  "host (GenerateAsteroidColumn s) = host s"
  "rand (GenerateAsteroidColumn s) = rand s"
  using grid_only_Generate [of s] by (simp_all add: grid_only_def collided_def)

lemma Shift_fields [simp]:
  "game_x (ShiftAsteroidColumns s) = game_x s"
  "game_y (ShiftAsteroidColumns s) = game_y s"
  "game_c (ShiftAsteroidColumns s) = game_c s"
  "game_shotCooldown (ShiftAsteroidColumns s) = game_shotCooldown s"
  "game_score (ShiftAsteroidColumns s) = game_score s"
  "game_shotsFired (ShiftAsteroidColumns s) = game_shotsFired s"
  "game_id (ShiftAsteroidColumns s) = game_id s"
  "shots (ShiftAsteroidColumns s) = shots s"
  "gRechargingWeapon (ShiftAsteroidColumns s) = gRechargingWeapon s"
  "asteroidSpawnProbability (ShiftAsteroidColumns s) = asteroidSpawnProbability s"
  "receiver (ShiftAsteroidColumns s) = receiver s"
  "host (ShiftAsteroidColumns s) = host s"
  "rand (ShiftAsteroidColumns s) = rand s"
  using collided_Shift [of s] by (simp_all add: grid_only_def collided_def)

lemma GenerateAndShift_fields [simp]:
  "game_x (GenerateAndShift s) = game_x s"
  "game_y (GenerateAndShift s) = game_y s"
  "game_c (GenerateAndShift s) = game_c s"
  "game_shotCooldown (GenerateAndShift s) = game_shotCooldown s"
  "game_score (GenerateAndShift s) = game_score s"
  "game_shotsFired (GenerateAndShift s) = game_shotsFired s"
  "game_id (GenerateAndShift s) = game_id s"
  "shots (GenerateAndShift s) = shots s"
  "gRechargingWeapon (GenerateAndShift s) = gRechargingWeapon s"
  "asteroidSpawnProbability (GenerateAndShift s) = asteroidSpawnProbability s"
  "receiver (GenerateAndShift s) = receiver s"
  "host (GenerateAndShift s) = host s"
  "rand (GenerateAndShift s) = rand s"
  using collided_GenerateAndShift [of s] by (simp_all add: grid_only_def collided_def)

lemma arrive_fields [simp]:
  "game_x (arrive s) = game_x s"
  "game_y (arrive s) = game_y s"
  "game_c (arrive s) = game_c s"
  "game_shotCooldown (arrive s) = game_shotCooldown s"
  "game_score (arrive s) = game_score s"
  "game_shotsFired (arrive s) = game_shotsFired s"
  "game_id (arrive s) = game_id s"
  "shots (arrive s) = shots s"
  "gRechargingWeapon (arrive s) = gRechargingWeapon s"
  "asteroidSpawnProbability (arrive s) = asteroidSpawnProbability s"
  "receiver (arrive s) = receiver s"
  "host (arrive s) = host s"
  "rand (arrive s) = rand s"
  using collided_arrive [of s] by (simp_all add: grid_only_def collided_def)


lemma UpdateShotCooldown_id [simp]: "UpdateShotCooldown s = s"
  by (simp add: UpdateShotCooldown_def charge_bar_def lib_defs)

lemma UpdateDifficulty_id [simp]: "UpdateDifficulty s = s"
  by (simp add: UpdateDifficulty_def lib_defs)

lemma ResetScreenColor_id [simp]: "ResetScreenColor s = s"
  by (simp add: ResetScreenColor_def draw_ship_def lib_defs)

lemma Help_id [simp]: "Help s = s"
  by (simp add: Help_def lib_defs)

lemma UpdateScore_eq: "UpdateScore s = score_difficulty s"
  by (simp add: UpdateScore_def lib_defs)

lemma UpdateHealth_eq: "UpdateHealth s = (if game_health s = 0 then GameOver s else s)"
proof -
  have "game_health s \<ge> 3 \<or> game_health s = 2 \<or> game_health s = 1 \<or> game_health s = 0"
    by unat_arith
  then show ?thesis
    by (auto simp: UpdateHealth_def health_text_def lib_defs)
qed


lemma released_0: "released 0 s s"
  by (simp add: released_def)

lemma released_Suc:
  assumes "released n s t"
  shows "released (Suc n) s (stop_shot n t)"
proof -
  have len: "length (shots t) = length (shots s)"
    and nth: "\<And>j. shots t ! j =
           (if j < n \<and> j < length (shots s) \<and> status (shots s ! j) = 1
            then (shots s ! j)\<lparr>status := 0\<rparr> else shots s ! j)"
    and tk: "tasks t =
         filter (\<lambda>e. \<forall>i<n. status (shots s ! i) = 1 \<longrightarrow> fst e \<noteq> T_MoveRightShot i) (tasks s)"
    using assms by (simp_all add: released_def)
  have same: "shots t ! n = shots s ! n"
    by (simp add: nth)
  show ?thesis
  proof (cases "status (shots s ! n) = 1")
    case True
    have tk': "tasks (stop_shot n t) = filter (\<lambda>e. fst e \<noteq> T_MoveRightShot n) (tasks t)"
      using True same by (simp add: stop_shot_def set_status_def Task_Remove_def)
    have sh: "shots (stop_shot n t) = (shots t)[n := (shots s ! n)\<lparr>status := 0\<rparr>]"
      using True same by (simp add: stop_shot_def set_status_def Task_Remove_def)
    have a: "tasks (stop_shot n t) =
        filter (\<lambda>e. \<forall>i<Suc n. status (shots s ! i) = 1 \<longrightarrow> fst e \<noteq> T_MoveRightShot i) (tasks s)"
      unfolding tk' tk using True
      by (auto simp: less_Suc_eq intro!: filter_cong)
    have b: "shots (stop_shot n t) ! j =
           (if j < Suc n \<and> j < length (shots s) \<and> status (shots s ! j) = 1
            then (shots s ! j)\<lparr>status := 0\<rparr> else shots s ! j)" for j
    proof (cases "j = n")
      case eq: True
      show ?thesis
      proof (cases "n < length (shots s)")
        case True
        then show ?thesis
          unfolding sh using eq len \<open>status (shots s ! n) = 1\<close> by simp
      next
        case False
        then have "(shots t)[n := (shots s ! n)\<lparr>status := 0\<rparr>] = shots t"
          using len by (simp add: list_update_beyond)
        then show ?thesis
          unfolding sh using eq False same by simp
      qed
    next
      case False
      then show ?thesis
        unfolding sh by (simp add: nth less_Suc_eq)
    qed
    have c: "length (shots (stop_shot n t)) = length (shots s)"
      unfolding sh by (simp add: len)
    show ?thesis
      unfolding released_def
      using a b c assms True same
      by (simp add: released_def stop_shot_def set_status_def Task_Remove_def)
  next
    case False
    then have id: "stop_shot n t = t"
      using same by (simp add: stop_shot_def)
    have a: "tasks t =
        filter (\<lambda>e. \<forall>i<Suc n. status (shots s ! i) = 1 \<longrightarrow> fst e \<noteq> T_MoveRightShot i) (tasks s)"
      unfolding tk using False
      by (auto simp: less_Suc_eq intro!: filter_cong)
    have b: "shots t ! j =
           (if j < Suc n \<and> j < length (shots s) \<and> status (shots s ! j) = 1
            then (shots s ! j)\<lparr>status := 0\<rparr> else shots s ! j)" for j
      using False by (auto simp: nth less_Suc_eq)
    show ?thesis
      unfolding released_def id
      using a b assms by (simp add: released_def)
  qed
qed

lemma released_loop: "released n s (fold stop_shot [0..<n] s)"
proof (induction n)
  case 0
  show ?case by (simp add: released_0)
next
  case (Suc n)
  then show ?case by (simp add: released_Suc)
qed


lemma GameOver_eq:
  "GameOver s =
     (fold stop_shot [0..<MAX_SHOTS]
        (Task_Remove T_IncreaseScore (Task_Remove T_GenerateAndShift s)))
     \<lparr>receiver := False, host := EndGame # host s\<rparr>"
proof -
  let ?u = "Task_Remove T_IncreaseScore (Task_Remove T_GenerateAndShift s)"
  have "released MAX_SHOTS ?u (fold stop_shot [0..<MAX_SHOTS] ?u)"
    by (rule released_loop)
  then have "host (fold stop_shot [0..<MAX_SHOTS] ?u) = host s"
    by (simp add: released_def Task_Remove_def)
  then show ?thesis
    by (simp add: GameOver_def lib_defs)
qed

lemma GameOver_released:
  "released MAX_SHOTS (Task_Remove T_IncreaseScore (Task_Remove T_GenerateAndShift s))
     ((GameOver s)\<lparr>receiver := receiver s, host := host s\<rparr>)"
proof -
  let ?u = "Task_Remove T_IncreaseScore (Task_Remove T_GenerateAndShift s)"
  have r: "released MAX_SHOTS ?u (fold stop_shot [0..<MAX_SHOTS] ?u)"
    by (rule released_loop)
  show ?thesis
    unfolding GameOver_eq using r
    by (simp add: released_def Task_Remove_def)
qed

lemma GameOver_fields [simp]:
  "game_x (GameOver s) = game_x s"
  "game_y (GameOver s) = game_y s"
  "game_c (GameOver s) = game_c s"
  "game_health (GameOver s) = game_health s"
  "game_shotCooldown (GameOver s) = game_shotCooldown s"
  "game_score (GameOver s) = game_score s"
  "game_shotsFired (GameOver s) = game_shotsFired s"
  "game_id (GameOver s) = game_id s"
  "asteroids (GameOver s) = asteroids s"
  "gRechargingWeapon (GameOver s) = gRechargingWeapon s"
  "asteroidSpawnProbability (GameOver s) = asteroidSpawnProbability s"
  "rand (GameOver s) = rand s"
  "rand_pos (GameOver s) = rand_pos s"
  "length (shots (GameOver s)) = length (shots s)"
  using GameOver_released [of s] by (simp_all add: released_def Task_Remove_def)

lemma GameOver_receiver [simp]: "receiver (GameOver s) = False"
  by (simp add: GameOver_def lib_defs)

lemma GameOver_host [simp]: "host (GameOver s) = EndGame # host s"
  by (simp add: GameOver_eq)

lemma GameOver_tasks:
  "tasks (GameOver s) =
     filter (\<lambda>e. fst e \<noteq> T_GenerateAndShift \<and> fst e \<noteq> T_IncreaseScore
                \<and> (\<forall>i<MAX_SHOTS. status (shots s ! i) = 1 \<longrightarrow> fst e \<noteq> T_MoveRightShot i))
       (tasks s)"
  using GameOver_released [of s]
  by (auto simp: released_def Task_Remove_def intro!: filter_cong)

lemma GameOver_shots:
  "shots (GameOver s) ! j =
     (if j < MAX_SHOTS \<and> j < length (shots s) \<and> status (shots s ! j) = 1
      then (shots s ! j)\<lparr>status := 0\<rparr> else shots s ! j)"
  using GameOver_released [of s]
  by (simp add: released_def Task_Remove_def)

lemma Play_fields [simp]:
  "game_x (Play s) = 1"
  "game_y (Play s) = 9"
  "game_health (Play s) = 3"
  "game_shotCooldown (Play s) = 6"
  "game_score (Play s) = 0"
  "game_shotsFired (Play s) = 0"
  "game_id (Play s) = game_id s"
  "shots (Play s) = shots s"
  "gRechargingWeapon (Play s) = gRechargingWeapon s"
  "asteroidSpawnProbability (Play s) = asteroidSpawnProbability s"
  "tasks (Play s) = tasks s @ [(T_GenerateAndShift, 1000), (T_IncreaseScore, 2500)]"
  "receiver (Play s) = True"
  "host (Play s) = host s"
  "rand (Play s) = rand s"
  by (simp_all add: Play_def init_game_def draw_ship_def UpdateScore_eq UpdateHealth_eq
      score_difficulty_def lib_defs)


lemmas body_defs = Shoot_def fire_def start_recharge_def set_status_def set_obj_x_def
  set_obj_y_def MoveRightShot_def clear_shot_def shot_arrive_def shot_hit_def
  DecreaseCooldown_def IncreaseScore_def score_difficulty_def set_difficulty_def
  take_entry_def too_few_def reset_or_reject_def Callback_def MoveRight_def MoveLeft_def
  MoveUp_def MoveDown_def clear_ship_def Receiver_def

subsection \<open>The position of the ship\<close>

lemma run_task_pos: "game_x (run_task t s) = game_x s \<and> game_y (run_task t s) = game_y s"
  by (cases t) (simp_all add: body_defs lib_defs wr_def UpdateScore_eq UpdateHealth_eq)

lemma Shoot_pos: "game_x (Shoot s) = game_x s \<and> game_y (Shoot s) = game_y s"
  by (simp add: body_defs lib_defs split: option.split)

lemma inc_bound: "unat (v::uint8) < n \<Longrightarrow> n \<le> 255 \<Longrightarrow> unat (v + 1) = unat v + 1"
  by (simp add: unat_word_ariths)

lemma dec_bound: "unat (v::uint8) > 0 \<Longrightarrow> unat (v - 1) = unat v - 1"
  by (simp add: unat_minus_one unat_gt_0)

lemma Move_pos:
  assumes "pos_ok s"
  shows "pos_ok (MoveRight s)" "pos_ok (MoveLeft s)" "pos_ok (MoveUp s)" "pos_ok (MoveDown s)"
  using assms
  by (auto simp: pos_ok_def in_field_def body_defs lib_defs inc_bound dec_bound)

lemma Receiver_pos: "pos_ok s \<Longrightarrow> pos_ok (Receiver c s)"
  using Shoot_pos [of s] by (simp add: Receiver_def Move_pos) (simp add: pos_ok_def)

lemma exec_pos:
  assumes "exec e s = Some s'" and "pos_ok s"
  shows "pos_ok s'"
proof (cases e)
  case Cmd_Play
  then show ?thesis
    using assms by (auto simp: pos_ok_def in_field_def)
next
  case Cmd_Help
  then show ?thesis
    using assms by auto
next
  case (Cmd_Callback argc argv)
  then show ?thesis
    using assms
    by (auto simp: pos_ok_def body_defs lib_defs split: list.splits if_splits)
next
  case (Rx c)
  then show ?thesis
    using assms by (auto simp: Receiver_pos split: if_splits)
next
  case (Tick t)
  then show ?thesis
    using assms run_task_pos
    by (auto simp: pos_ok_def take_entry_def split: option.splits)
qed

lemma Play_pos: "pos_ok (Play s)"
  by (simp add: pos_ok_def in_field_def)

lemma in_round_pos: "in_round s \<Longrightarrow> pos_ok s"
  by (induction rule: in_round.induct) (auto simp: Play_pos exec_pos)

lemma in_field_interior: "in_field cx cy \<Longrightarrow> interior cx cy"
  by (simp add: in_field_def interior_def)

lemma booted_boot: "booted (boot r)"
  by (simp add: booted_def boot_def)

text \<open>
  C7. In every state of a round the ship is in a cell of \<open>in_field\<close>, hence strictly
  between the walls; and a move whose target cell is not in \<open>in_field\<close> (in particular one
  that is on or beyond a wall) returns the state it was given, unchanged in every
  component.
\<close>

theorem C7_ship_stays_inside:
  "(in_round s \<longrightarrow>
      in_field (unat (game_x s)) (unat (game_y s)) \<and>
      interior (unat (game_x s)) (unat (game_y s)))
   \<and> (in_field (unat (game_x s)) (unat (game_y s)) \<longrightarrow>
        (\<not> in_field (unat (game_x s) + 1) (unat (game_y s)) \<longrightarrow> MoveRight s = s)
      \<and> (\<not> in_field (unat (game_x s) - 1) (unat (game_y s)) \<longrightarrow> MoveLeft s = s)
      \<and> (\<not> in_field (unat (game_x s)) (unat (game_y s) - 1) \<longrightarrow> MoveUp s = s)
      \<and> (\<not> in_field (unat (game_x s)) (unat (game_y s) + 1) \<longrightarrow> MoveDown s = s))"
proof (intro conjI impI)
  assume "in_round s"
  then have "pos_ok s" by (rule in_round_pos)
  then show "in_field (unat (game_x s)) (unat (game_y s))"
    by (simp add: pos_ok_def)
  then show "interior (unat (game_x s)) (unat (game_y s))"
    by (rule in_field_interior)
next
  assume "in_field (unat (game_x s)) (unat (game_y s))"
    and "\<not> in_field (unat (game_x s) + 1) (unat (game_y s))"
  then show "MoveRight s = s"
    by (auto simp: in_field_def MoveRight_def)
next
  assume "in_field (unat (game_x s)) (unat (game_y s))"
    and "\<not> in_field (unat (game_x s) - 1) (unat (game_y s))"
  then show "MoveLeft s = s"
    by (auto simp: in_field_def MoveLeft_def)
next
  assume "in_field (unat (game_x s)) (unat (game_y s))"
    and "\<not> in_field (unat (game_x s)) (unat (game_y s) - 1)"
  then show "MoveUp s = s"
    by (auto simp: in_field_def MoveUp_def)
next
  assume "in_field (unat (game_x s)) (unat (game_y s))"
    and "\<not> in_field (unat (game_x s)) (unat (game_y s) + 1)"
  then show "MoveDown s = s"
    by (auto simp: in_field_def MoveDown_def)
qed

theorem C7_ship_stays_inside_witness:
  "in_round (Play (boot (\<lambda>n. 2)))
   \<and> in_field 1 9 \<and> interior 1 9
   \<and> \<not> in_field 0 9 \<and> MoveLeft (Play (boot (\<lambda>n. 2))) = Play (boot (\<lambda>n. 2))
   \<and> in_field 57 9 \<and> \<not> in_field 58 9
   \<and> MoveRight ((Play (boot (\<lambda>n. 2)))\<lparr>game_x := 57\<rparr>) = (Play (boot (\<lambda>n. 2)))\<lparr>game_x := 57\<rparr>
   \<and> in_field 1 1 \<and> \<not> in_field 1 0
   \<and> MoveUp ((Play (boot (\<lambda>n. 2)))\<lparr>game_y := 1\<rparr>) = (Play (boot (\<lambda>n. 2)))\<lparr>game_y := 1\<rparr>
   \<and> in_field 1 17 \<and> \<not> in_field 1 18
   \<and> MoveDown ((Play (boot (\<lambda>n. 2)))\<lparr>game_y := 17\<rparr>) = (Play (boot (\<lambda>n. 2)))\<lparr>game_y := 17\<rparr>"
proof -
  let ?s = "Play (boot (\<lambda>n. 2))"
  have r: "in_round ?s"
    by (intro in_round.played reachable.start booted_boot)
  have f: "in_field 1 9" "in_field 57 9" "in_field 1 1" "in_field 1 17"
    "\<not> in_field 0 9" "\<not> in_field 58 9" "\<not> in_field 1 0" "\<not> in_field 1 18"
    by (simp_all add: in_field_def)
  show ?thesis
    using r f C7_ship_stays_inside [of ?s] C7_ship_stays_inside [of "?s\<lparr>game_x := 57\<rparr>"]
      C7_ship_stays_inside [of "?s\<lparr>game_y := 1\<rparr>"] C7_ship_stays_inside [of "?s\<lparr>game_y := 17\<rparr>"]
    by simp
qed

subsection \<open>The weapon\<close>

lemma last_match:
  "fold (\<lambda>i r. if P i then Some i else r) [0..<n] None = Some k \<longleftrightarrow>
     k < n \<and> P k \<and> (\<forall>j. k < j \<and> j < n \<longrightarrow> \<not> P j)"
proof (induction n)
  case 0
  show ?case by simp
next
  case (Suc n)
  show ?case
  proof (cases "P n")
    case True
    then show ?thesis
      by (auto simp: less_Suc_eq)
  next
    case False
    then show ?thesis
      using Suc.IH by (auto simp: less_Suc_eq)
  qed
qed

lemma no_match:
  "fold (\<lambda>i r. if P i then Some i else r) [0..<n] None = None \<longleftrightarrow> (\<forall>k<n. \<not> P k)"
  by (induction n) (auto simp: less_Suc_eq)

lemma find_unused_Some:
  "find_unused s = Some k \<longleftrightarrow>
     k < MAX_SHOTS \<and> status (shots s ! k) = 0
     \<and> (\<forall>j. k < j \<and> j < MAX_SHOTS \<longrightarrow> status (shots s ! j) \<noteq> 0)"
  unfolding find_unused_def by (rule last_match)

lemma find_unused_None: "find_unused s = None \<longleftrightarrow> (\<forall>k<MAX_SHOTS. status (shots s ! k) \<noteq> 0)"
  unfolding find_unused_def by (rule no_match)

lemma sub3: "3 \<le> (c::uint8) \<Longrightarrow> unat (c - 3) + 3 = unat c"
  by unat_arith

lemma Shoot_cool:
  "game_shotCooldown (Shoot s) =
     (if 3 \<le> game_shotCooldown s \<and> find_unused s \<noteq> None
      then game_shotCooldown s - 3 else game_shotCooldown s)"
  by (auto simp: body_defs lib_defs split: option.splits)

lemma run_task_cool:
  "game_shotCooldown (run_task t s) =
     (if t = T_DecreaseCooldown \<and> game_shotCooldown s < 6
      then game_shotCooldown s + 1 else game_shotCooldown s)"
  by (cases t) (simp_all add: body_defs lib_defs wr_def UpdateScore_eq UpdateHealth_eq)

lemma Receiver_cool:
  "game_shotCooldown (Receiver c s) = game_shotCooldown s \<or>
   (3 \<le> game_shotCooldown s \<and> game_shotCooldown (Receiver c s) = game_shotCooldown s - 3)"
  by (simp add: Receiver_def MoveRight_def MoveLeft_def MoveUp_def MoveDown_def
      clear_ship_def lib_defs Shoot_cool)

lemma cool_le: "(c::uint8) \<le> 6 \<Longrightarrow> 3 \<le> c \<Longrightarrow> c - 3 \<le> 6"
  by unat_arith

lemma cool_inc: "(c::uint8) < 6 \<Longrightarrow> c + 1 \<le> 6"
  by unat_arith

lemma exec_cool:
  assumes "exec e s = Some s'" and "game_shotCooldown s \<le> 6"
  shows "game_shotCooldown s' \<le> 6"
proof (cases e)
  case Cmd_Play
  then show ?thesis using assms by auto
next
  case Cmd_Help
  then show ?thesis using assms by auto
next
  case (Cmd_Callback argc argv)
  then show ?thesis
    using assms by (auto simp: body_defs lib_defs split: list.splits if_splits)
next
  case (Rx c)
  then show ?thesis
    using assms Receiver_cool [of c s] by (auto simp: cool_le split: if_splits)
next
  case (Tick t)
  then show ?thesis
    using assms by (auto simp: run_task_cool take_entry_def cool_inc split: option.splits)
qed

lemma reachable_cool: "reachable s \<Longrightarrow> game_shotCooldown s \<le> 6"
  by (induction rule: reachable.induct) (auto simp: booted_def exec_cool)

lemma in_round_reachable: "in_round s \<Longrightarrow> reachable s"
  by (induction rule: in_round.induct) (auto intro: reachable.step [of _ Cmd_Play] reachable.step)


text \<open>
  C3. The weapon charge \<open>game_shotCooldown\<close> is at most 6 in every reachable state, in
  particular in every state of a round. \<^verbatim>\<open>Shoot\<close> changes the state only when the charge is
  at least 3 and some slot is idle, and then lowers the charge by exactly 3;
  \<^verbatim>\<open>DecreaseCooldown\<close> raises a charge below 6 by exactly 1 and never raises it above 6.
\<close>

theorem C3_cooldown_range:
  "(reachable s \<longrightarrow> game_shotCooldown s \<le> 6)
   \<and> (in_round s \<longrightarrow> game_shotCooldown s \<le> 6)
   \<and> (Shoot s \<noteq> s \<longrightarrow>
        3 \<le> game_shotCooldown s \<and> (\<exists>k<MAX_SHOTS. status (shots s ! k) = 0))
   \<and> (3 \<le> game_shotCooldown s \<and> (\<exists>k<MAX_SHOTS. status (shots s ! k) = 0) \<longrightarrow>
        unat (game_shotCooldown (Shoot s)) + 3 = unat (game_shotCooldown s))
   \<and> (game_shotCooldown s < 6 \<longrightarrow>
        unat (game_shotCooldown (DecreaseCooldown s)) = unat (game_shotCooldown s) + 1)
   \<and> (game_shotCooldown s \<le> 6 \<longrightarrow> game_shotCooldown (DecreaseCooldown s) \<le> 6)"
proof (intro conjI impI)
  assume "reachable s"
  then show "game_shotCooldown s \<le> 6" by (rule reachable_cool)
next
  assume "in_round s"
  then show "game_shotCooldown s \<le> 6"
    by (intro reachable_cool in_round_reachable)
next
  assume changed: "Shoot s \<noteq> s"
  then show "3 \<le> game_shotCooldown s"
    by (auto simp: Shoot_def split: if_splits)
  from changed have "find_unused s \<noteq> None"
    by (auto simp: Shoot_def split: if_splits option.splits)
  then show "\<exists>k<MAX_SHOTS. status (shots s ! k) = 0"
    by (simp add: find_unused_None)
next
  assume "3 \<le> game_shotCooldown s \<and> (\<exists>k<MAX_SHOTS. status (shots s ! k) = 0)"
  then have "3 \<le> game_shotCooldown s" and "find_unused s \<noteq> None"
    by (auto simp: find_unused_None)
  then show "unat (game_shotCooldown (Shoot s)) + 3 = unat (game_shotCooldown s)"
    by (simp add: Shoot_cool sub3)
next
  assume "game_shotCooldown s < 6"
  then show "unat (game_shotCooldown (DecreaseCooldown s)) = unat (game_shotCooldown s) + 1"
    using run_task_cool [of T_DecreaseCooldown s]
    by (simp add: word_less_nat_alt inc_bound [of _ 6])
next
  assume "game_shotCooldown s \<le> 6"
  then show "game_shotCooldown (DecreaseCooldown s) \<le> 6"
    using run_task_cool [of T_DecreaseCooldown s] by (auto simp: cool_inc)
qed

lemma boot_shots: "shots (boot r) = [idle_shot, idle_shot, idle_shot, idle_shot, idle_shot]"
  by (simp add: boot_def)

lemma all_fields:
  "(sh::char_object)\<lparr>status := a, obj_y := b, obj_x := c\<rparr> = \<lparr>obj_x = c, obj_y = b, status = a\<rparr>"
  by (cases sh) simp

theorem C3_cooldown_range_witness:
  "in_round (Play (boot (\<lambda>n. 2)))
   \<and> reachable (Play (boot (\<lambda>n. 2)))
   \<and> game_shotCooldown (Play (boot (\<lambda>n. 2))) = 6
   \<and> Shoot (Play (boot (\<lambda>n. 2))) \<noteq> Play (boot (\<lambda>n. 2))
   \<and> status (shots (Play (boot (\<lambda>n. 2))) ! 0) = 0
   \<and> game_shotCooldown (Shoot (Play (boot (\<lambda>n. 2)))) = 3
   \<and> game_shotCooldown (DecreaseCooldown (Shoot (Play (boot (\<lambda>n. 2))))) = 4"
proof -
  let ?s = "Play (boot (\<lambda>n. 2))"
  have r: "in_round ?s"
    by (intro in_round.played reachable.start booted_boot)
  have c: "game_shotCooldown ?s = 6"
    by simp
  have i: "status (shots ?s ! 0) = 0"
    by (simp add: boot_shots idle_shot_def)
  then have e: "\<exists>k<MAX_SHOTS. status (shots ?s ! k) = 0"
    by (intro exI [of _ 0]) simp
  have s3: "unat (game_shotCooldown (Shoot ?s)) + 3 = unat (game_shotCooldown ?s)"
    using C3_cooldown_range [of ?s] c e by simp
  then have c3: "game_shotCooldown (Shoot ?s) = 3"
    by (simp add: c) unat_arith
  have ne: "Shoot ?s \<noteq> ?s"
  proof
    assume "Shoot ?s = ?s"
    then have "game_shotCooldown (Shoot ?s) = game_shotCooldown ?s" by simp
    then show False by (simp add: c3)
  qed
  have "unat (game_shotCooldown (DecreaseCooldown (Shoot ?s)))
      = unat (game_shotCooldown (Shoot ?s)) + 1"
    using C3_cooldown_range [of "Shoot ?s"] c3 by simp
  then have c4: "game_shotCooldown (DecreaseCooldown (Shoot ?s)) = 4"
    by (simp add: c3) unat_arith
  show ?thesis
    using r in_round_reachable [OF r] c i c3 c4 ne by simp
qed

lemma sint_range16: "- 32768 \<le> sint (w::cint) \<and> sint w \<le> 32767"
  using sint_ge [of w] sint_lt [of w] by simp

lemma sint_inc: "sint (w::cint) < INT_MAX \<Longrightarrow> sint (w + 1) = sint w + 1"
proof -
  assume a: "sint w < INT_MAX"
  have "sint (w + 1) = signed_take_bit 15 (sint w + 1)"
    by (simp add: sint_word_ariths)
  also have "\<dots> = sint w + 1"
    using a sint_range16 [of w]
    by (simp add: signed_take_bit_int_eq_self_iff)
  finally show ?thesis .
qed

text \<open>
  C2 (as the code has it). The loop of \<^verbatim>\<open>Shoot\<close> keeps the last idle slot it meets. With
  a charge of at least 3, the slot allocated is the idle slot of highest index \<open>k\<close>: it
  becomes active one cell ahead of the ship, at \<open>(x + 1, y)\<close>, its advance task is
  scheduled, the charge drops by 3, and the count of shots fired, read as a signed
  number, goes up by exactly 1 as long as it was below \<open>INT_MAX\<close>.
\<close>

theorem C2_shoot_takes_last_idle:
  assumes len: "length (shots s) = MAX_SHOTS"
    and charge: "3 \<le> game_shotCooldown s"
    and k: "k < MAX_SHOTS"
    and idle: "status (shots s ! k) = 0"
    and last: "\<forall>j. k < j \<and> j < MAX_SHOTS \<longrightarrow> status (shots s ! j) \<noteq> 0"
  shows "shots (Shoot s) = (shots s)[k := \<lparr>obj_x = game_x s + 1, obj_y = game_y s, status = 1\<rparr>]
    \<and> (sint (game_shotsFired s) < INT_MAX \<longrightarrow>
         sint (game_shotsFired (Shoot s)) = sint (game_shotsFired s) + 1)
    \<and> unat (game_shotCooldown (Shoot s)) + 3 = unat (game_shotCooldown s)
    \<and> (T_MoveRightShot k, FIRE_SPEED) \<in> set (tasks (Shoot s))"
proof -
  have f: "find_unused s = Some k"
    using k idle last by (simp add: find_unused_Some)
  then have sh: "Shoot s = fire k s"
    using charge by (simp add: Shoot_def)
  have "shots (fire k s) = (shots s)[k := \<lparr>obj_x = game_x s + 1, obj_y = game_y s, status = 1\<rparr>]"
    using k len by (simp add: body_defs lib_defs all_fields)
  moreover have "game_shotsFired (fire k s) = game_shotsFired s + 1"
    by (simp add: body_defs lib_defs)
  moreover have "game_shotCooldown (fire k s) = game_shotCooldown s - 3"
    by (simp add: body_defs lib_defs)
  moreover have "(T_MoveRightShot k, FIRE_SPEED) \<in> set (tasks (fire k s))"
    by (simp add: body_defs lib_defs)
  ultimately show ?thesis
    using charge by (simp add: sh sub3 sint_inc)
qed

theorem C2_shoot_takes_last_idle_witness:
  "length (shots (Play (boot (\<lambda>n. 2)))) = MAX_SHOTS
   \<and> 3 \<le> game_shotCooldown (Play (boot (\<lambda>n. 2)))
   \<and> status (shots (Play (boot (\<lambda>n. 2))) ! 4) = 0
   \<and> shots (Shoot (Play (boot (\<lambda>n. 2)))) =
       [idle_shot, idle_shot, idle_shot, idle_shot, \<lparr>obj_x = 2, obj_y = 9, status = 1\<rparr>]
   \<and> sint (game_shotsFired (Play (boot (\<lambda>n. 2)))) < INT_MAX
   \<and> sint (game_shotsFired (Shoot (Play (boot (\<lambda>n. 2))))) = 1
   \<and> (T_MoveRightShot 4, FIRE_SPEED) \<in> set (tasks (Shoot (Play (boot (\<lambda>n. 2)))))"
proof -
  let ?s = "Play (boot (\<lambda>n. 2))"
  have a: "length (shots ?s) = MAX_SHOTS" "3 \<le> game_shotCooldown ?s" "(4::nat) < MAX_SHOTS"
    "status (shots ?s ! 4) = 0" "\<forall>j. 4 < j \<and> j < MAX_SHOTS \<longrightarrow> status (shots ?s ! j) \<noteq> 0"
    by (simp_all add: boot_shots idle_shot_def)
  show ?thesis
    using C2_shoot_takes_last_idle [OF a] a
    by (simp add: boot_shots)
qed

theorem C2_first_fit_counterexample:
  "3 \<le> game_shotCooldown (Play (boot (\<lambda>n. 2)))
   \<and> status (shots (Play (boot (\<lambda>n. 2))) ! 0) = 0
   \<and> status (shots (Shoot (Play (boot (\<lambda>n. 2)))) ! 0) = 0
   \<and> status (shots (Shoot (Play (boot (\<lambda>n. 2)))) ! 4) = 1"
proof -
  let ?s = "Play (boot (\<lambda>n. 2))"
  have "find_unused ?s = Some 4"
    by (simp add: find_unused_Some boot_shots idle_shot_def)
  then have "Shoot ?s = fire 4 ?s"
    by (simp add: Shoot_def)
  then show ?thesis
    by (simp add: body_defs lib_defs boot_shots idle_shot_def)
qed

subsection \<open>The declared bounds of the grid\<close>

lemma fold_chk_fault:
  assumes here: "\<And>s. f x s = Inl Out_of_bounds"
    and mem: "x \<in> set xs"
    and only: "\<And>y t e. f y t = Inl e \<Longrightarrow> e = Out_of_bounds"
  shows "fold_chk f xs s = Inl Out_of_bounds"
  using mem
proof (induction xs arbitrary: s)
  case Nil
  then show ?case by simp
next
  case (Cons y ys)
  show ?case
  proof (cases "f y s")
    case (Inl e)
    then show ?thesis using only [of y s e] by simp
  next
    case (Inr t)
    have "y \<noteq> x"
      using Inr here [of s] by auto
    then have "x \<in> set ys"
      using Cons.prems by simp
    then show ?thesis
      using Inr Cons.IH by simp
  qed
qed

lemma fold_chk_ok:
  assumes "\<And>y t. y \<in> set xs \<Longrightarrow> f y t = Inr (g y t)"
  shows "fold_chk f xs s = Inr (fold g xs s)"
  using assms by (induction xs arbitrary: s) simp_all

lemma spawn_cell_chk_in: "i < MAP_HEIGHT - 1 \<Longrightarrow> spawn_cell_chk i s = Inr (spawn_cell i s)"
  by (simp add: spawn_cell_chk_def spawn_cell_def random_int_def wr_chk_def in_bounds_def ok_def)

lemma spawn_cell_chk_out: "spawn_cell_chk 17 s = Inl Out_of_bounds"
  by (simp add: spawn_cell_chk_def random_int_def wr_chk_def in_bounds_def)

lemma spawn_cell_chk_only: "spawn_cell_chk i s = Inl e \<Longrightarrow> e = Out_of_bounds"
  by (auto simp: spawn_cell_chk_def random_int_def wr_chk_def ok_def split: if_splits)

lemma Generate_chk_fault: "GenerateAsteroidColumn_chk s = Inl Out_of_bounds"
  unfolding GenerateAsteroidColumn_chk_def
  by (rule fold_chk_fault [where x = 17])
    (simp_all add: spawn_cell_chk_out spawn_cell_chk_only)

lemma Generate_chk_rows_before:
  "fold_chk spawn_cell_chk [1..<MAP_HEIGHT - 1] s = Inr (fold spawn_cell [1..<MAP_HEIGHT - 1] s)"
  by (rule fold_chk_ok) (simp add: spawn_cell_chk_in)

lemma collide_chk_in: "in_bounds cx cy \<Longrightarrow> collide_chk cx cy s = Inr (collide cx cy s)"
  by (simp add: collide_chk_def collide_def wr_chk_def ok_def)

lemma collide_chk_only: "collide_chk cx cy s = Inl e \<Longrightarrow> e = Out_of_bounds"
  by (auto simp: collide_chk_def wr_chk_def ok_def split: if_splits)

lemma shift_cell_chk_in:
  "in_bounds (column + 1) i \<Longrightarrow> in_bounds column i \<Longrightarrow>
   shift_cell_chk column i s = Inr (shift_cell column i s)"
  by (simp add: shift_cell_chk_def shift_cell_def copy_cell_chk_def copy_cell_def
      show_cell_chk_def show_cell_def rd_chk_def wr_chk_def collide_chk_in
      ship_at_def foundShot_def wr_def rd_def Game_CharXY_def)

lemma shift_cell_chk_out: "shift_cell_chk column 17 s = Inl Out_of_bounds"
  by (simp add: shift_cell_chk_def copy_cell_chk_def rd_chk_def in_bounds_def)

lemma shift_cell_chk_only: "shift_cell_chk column i s = Inl e \<Longrightarrow> e = Out_of_bounds"
  by (auto simp: shift_cell_chk_def copy_cell_chk_def show_cell_chk_def rd_chk_def wr_chk_def
      dest: collide_chk_only split: if_splits sum.splits)

lemma shift_column_chk_fault: "shift_column_chk column s = Inl Out_of_bounds"
  unfolding shift_column_chk_def
  by (rule fold_chk_fault [where x = 17])
    (simp_all add: shift_cell_chk_out shift_cell_chk_only)

lemma Shift_chk_fault: "ShiftAsteroidColumns_chk s = Inl Out_of_bounds"
  unfolding ShiftAsteroidColumns_chk_def
  by (rule fold_chk_fault [where x = 1]) (simp_all add: shift_column_chk_fault)

text \<open>
  C10 (what the code does). With every access to \<^verbatim>\<open>asteroids\<close> checked against the
  declared bounds, \<^verbatim>\<open>GenerateAsteroidColumn\<close> and \<^verbatim>\<open>ShiftAsteroidColumns\<close> run out of
  bounds from every state: the loops over the rows go up to \<open>i = 17\<close>, and the second
  index 17 is not below \<open>MAP_HEIGHT - 1\<close>. The rows before the last are within bounds.
\<close>

theorem C10_grid_access_out_of_bounds:
  "GenerateAsteroidColumn_chk s = Inl Out_of_bounds
   \<and> ShiftAsteroidColumns_chk s = Inl Out_of_bounds
   \<and> fold_chk spawn_cell_chk [1..<MAP_HEIGHT - 1] s = Inr (fold spawn_cell [1..<MAP_HEIGHT - 1] s)
   \<and> spawn_cell_chk 17 s = Inl Out_of_bounds
   \<and> shift_cell_chk 1 17 s = Inl Out_of_bounds"
proof (intro conjI)
  show "GenerateAsteroidColumn_chk s = Inl Out_of_bounds"
    by (rule Generate_chk_fault)
  show "ShiftAsteroidColumns_chk s = Inl Out_of_bounds"
    by (rule Shift_chk_fault)
  show "fold_chk spawn_cell_chk [1..<MAP_HEIGHT - 1] s = Inr (fold spawn_cell [1..<MAP_HEIGHT - 1] s)"
    by (rule Generate_chk_rows_before)
  show "spawn_cell_chk 17 s = Inl Out_of_bounds"
    by (rule spawn_cell_chk_out)
  show "shift_cell_chk 1 17 s = Inl Out_of_bounds"
    by (rule shift_cell_chk_out)
qed

subsection \<open>Evaluation of concrete executions\<close>

lemma map_of_filter_ne:
  "map_of (filter (\<lambda>e. fst e \<noteq> a) al) b = (if b = a then None else map_of al b)"
  by (induction al) auto

lemma grid_of_upd: "(grid_of al)(a := v) = grid_of (put a v al)"
  by (rule ext) (simp add: grid_of_def put_def map_of_filter_ne)

lemma grid_of_Nil: "grid_of [] a = 0"
  by (simp add: grid_of_def)

lemma grid_of_Cons: "grid_of ((k, v) # al) a = (if a = k then v else grid_of al a)"
  by (simp add: grid_of_def)

lemma zero_grid: "(\<lambda>a. 0) = grid_of []"
  by (rule ext) (simp add: grid_of_def)

lemma replicate_numeral: "replicate (numeral k) x = x # replicate (pred_numeral k) x"
  by (simp add: numeral_eq_Suc)

lemma list_update_numeral: "(x # xs)[numeral v := y] = x # xs[pred_numeral v := y]"
  by (simp add: numeral_eq_Suc)

lemma rows: "[1..<MAP_HEIGHT] = [1, 2, 3, 4, 5, 6, 7, 8, 9, 10, 11, 12, 13, 14, 15, 16, 17]"
  by (simp add: upt_conv_Cons)

lemma slots: "[0..<MAX_SHOTS] = [0, 1, 2, 3, 4]"
  by (simp add: upt_conv_Cons)

lemmas ev = grid_of_upd grid_of_Nil grid_of_Cons put_def rows slots replicate_numeral
  list_update_numeral upt_conv_Cons
  Play_def wr_def rd_def offset_def
  UpdateScore_def UpdateHealth_def
  Task_Schedule_def Task_Queue_def Task_Remove_def set_difficulty_def
  GameOver_def IncreaseScore_def collide_def arrive_def MoveRight_def MoveLeft_def MoveUp_def MoveDown_def
  GenerateAsteroidColumn_def foundShot_def ship_at_def shift_cell_def ShiftAsteroidColumns_def
  GenerateAndShift_def find_unused_def Shoot_def MoveRightShot_def DecreaseCooldown_def
  Receiver_def random_int_def
  Game_ClearScreen_def Game_DrawRect_def Game_SetColor_def Game_CharXY_def Game_Printf_def
  Game_HideCursor_def Game_ShowCursor_def Game_Bell_def Game_RegisterPlayer1Receiver_def
  Game_UnregisterPlayer1Receiver_def Game_Log_def Game_GameOver_def
  score_difficulty_def draw_ship_def set_status_def set_obj_x_def set_obj_y_def
  stop_shot_def health_text_def clear_line_def init_game_def damage_def clear_ship_def
  spawn_cell_def copy_cell_def show_cell_def shift_column_def start_recharge_def fire_def
  clear_shot_def shot_hit_def shot_arrive_def take_entry_def
  too_few_def reset_or_reject_def Callback_def

lemma boot_grid: "boot r = (boot r)\<lparr>asteroids := grid_of []\<rparr>"
  by (simp add: boot_def zero_grid)

lemma approach_run: "run approach (boot dice) = Some field_state"
  apply (subst boot_grid)
  apply (simp add: approach_def boot_def ev dice_def rolls_def field_state_def idle_shot_def)
  done

lemma run_append:
  "run (es @ es') s = (case run es s of None \<Rightarrow> None | Some t \<Rightarrow> run es' t)"
  by (induction es arbitrary: s) (auto split: option.splits)

lemma after_approach: "run (approach @ es) (boot dice) = run es field_state"
  by (simp add: run_append approach_run)

subsection \<open>The host sub-command\<close>

text \<open>
  C8. With \<^verbatim>\<open>argc = 0\<close> the file logs \<^verbatim>\<open>too few args\<close> and goes on (the \<^verbatim>\<open>if\<close> has no
  \<^verbatim>\<open>return\<close>): it reads \<^verbatim>\<open>argv[0]\<close> all the same. When the string there is \<^verbatim>\<open>reset\<close> the
  score is set to zero after the rejection was logged; when there is no string the read
  is outside \<^verbatim>\<open>argv\<close>. The execution \<open>reset_without_args\<close> has the score at 1 before the
  sub-command and at 0 after it.
\<close>

theorem C8_reset_without_arguments:
  "(\<exists>t. Callback 0 (''reset'' # rest) s = Inr t \<and> game_score t = 0
        \<and> host t = Log ''Scores reset'' # Log ''too few args'' # host s)
   \<and> Callback 0 [] s = Inl Bad_argv
   \<and> map_option (\<lambda>t. (sint (game_score t), host t))
        (run (butlast reset_without_args) (boot (\<lambda>n. 2))) = Some (1, [])
   \<and> map_option (\<lambda>t. (sint (game_score t), host t))
        (run reset_without_args (boot (\<lambda>n. 2)))
       = Some (0, [Log ''Scores reset'', Log ''too few args''])"
  by (simp add: reset_without_args_def body_defs lib_defs strcasecmp_def tolower_def
      boot_def)

subsection \<open>The difficulty at the start of a round\<close>

text \<open>
  C9. \<^verbatim>\<open>Play\<close> has no assignment to \<^verbatim>\<open>asteroidSpawnProbability\<close>: the variable has its
  starting value from its initialiser only, and a round starts with the value the round
  before left. In the execution below the first round reaches the score 25, which
  lowers the value to 23, and ends; after the second \<^verbatim>\<open>Play\<close> the score is 0, the health
  3 and the value still 23.
\<close>

theorem C9_play_keeps_spawn_probability:
  "asteroidSpawnProbability (Play s) = asteroidSpawnProbability s
   \<and> map_option (\<lambda>t. (sint (game_score t), game_health t, asteroidSpawnProbability t, host t))
        (run (approach @ first_round) (boot dice)) = Some (25, 0, 23, [EndGame])
   \<and> map_option (\<lambda>t. (sint (game_score t), game_health t, asteroidSpawnProbability t, host t))
        (run (approach @ first_round @ [Cmd_Play]) (boot dice)) = Some (0, 3, 23, [EndGame])"
  apply (intro conjI)
    apply simp
   apply (simp add: after_approach first_round_def three_hits_def third_hit_def survive_def field_state_def ev
      idle_shot_def)
  apply (simp add: after_approach first_round_def three_hits_def third_hit_def survive_def field_state_def ev
      idle_shot_def)
  done

subsection \<open>The end of the round\<close>

lemma cancelled_iff:
  "cancelled s t \<longleftrightarrow> t = T_GenerateAndShift \<or> t = T_IncreaseScore
     \<or> (\<exists>i<MAX_SHOTS. status (shots s ! i) = 1 \<and> t = T_MoveRightShot i)"
  by (cases t) (auto simp: cancelled_def)

lemma GameOver_cancelled:
  "tasks (GameOver s) = filter (\<lambda>e. \<not> cancelled s (fst e)) (tasks s)"
  unfolding GameOver_tasks
  by (rule filter_cong) (auto simp: cancelled_iff)

lemma Task_Remove_absent: "t \<notin> fst ` set (tasks s) \<Longrightarrow> Task_Remove t s = s"
proof -
  assume "t \<notin> fst ` set (tasks s)"
  then have "filter (\<lambda>e. fst e \<noteq> t) (tasks s) = tasks s"
    by (intro filter_True) auto
  then show ?thesis
    by (simp add: Task_Remove_def)
qed

text \<open>
  C1 (as the code has it). \<^verbatim>\<open>GameOver\<close>, which the run of \<^verbatim>\<open>UpdateHealth\<close> at health 0
  calls, removes from the task list exactly the entries of \<open>cancelled\<close>: the spawn/shift
  task, the score tick, and the advance task of every slot that is active, which it sets
  idle. Every other entry stays, the recharge task \<^verbatim>\<open>DecreaseCooldown\<close> among them: that
  task is removed by its own run, the first one that finds the charge at 6 or more.
  Removing a task twice is removing it once, and removing a task that is not scheduled
  changes nothing.
\<close>

theorem C1_game_over_cancels:
  "tasks (GameOver s) = filter (\<lambda>e. \<not> cancelled s (fst e)) (tasks s)
   \<and> ((T_DecreaseCooldown, p) \<in> set (tasks (GameOver s))
        \<longleftrightarrow> (T_DecreaseCooldown, p) \<in> set (tasks s))
   \<and> (j < MAX_SHOTS \<and> j < length (shots s) \<and> status (shots s ! j) = 1 \<longrightarrow>
        status (shots (GameOver s) ! j) = 0)
   \<and> Task_Remove t (Task_Remove t s) = Task_Remove t s
   \<and> (t \<notin> fst ` set (tasks s) \<longrightarrow> Task_Remove t s = s)
   \<and> (game_health s = 0 \<longrightarrow> run_task T_UpdateHealth s = GameOver s)
   \<and> tasks (DecreaseCooldown s) =
       (if game_shotCooldown s < 6 then tasks s @ [(T_UpdateShotCooldown, 0)]
        else filter (\<lambda>e. fst e \<noteq> T_DecreaseCooldown) (tasks s))"
proof (intro conjI impI)
  show "tasks (GameOver s) = filter (\<lambda>e. \<not> cancelled s (fst e)) (tasks s)"
    by (rule GameOver_cancelled)
  show "(T_DecreaseCooldown, p) \<in> set (tasks (GameOver s))
        \<longleftrightarrow> (T_DecreaseCooldown, p) \<in> set (tasks s)"
    by (simp add: GameOver_cancelled cancelled_def)
  show "Task_Remove t (Task_Remove t s) = Task_Remove t s"
    by (simp add: Task_Remove_def)
  show "tasks (DecreaseCooldown s) =
       (if game_shotCooldown s < 6 then tasks s @ [(T_UpdateShotCooldown, 0)]
        else filter (\<lambda>e. fst e \<noteq> T_DecreaseCooldown) (tasks s))"
    by (simp add: DecreaseCooldown_def lib_defs)
next
  assume "j < MAX_SHOTS \<and> j < length (shots s) \<and> status (shots s ! j) = 1"
  then show "status (shots (GameOver s) ! j) = 0"
    by (simp add: GameOver_shots)
next
  assume "t \<notin> fst ` set (tasks s)"
  then show "Task_Remove t s = s"
    by (rule Task_Remove_absent)
next
  assume "game_health s = 0"
  then show "run_task T_UpdateHealth s = GameOver s"
    by (simp add: UpdateHealth_eq)
qed

lemma fired_state:
  "Shoot (Play (boot r)) = fire 4 (Play (boot r))"
proof -
  have "find_unused (Play (boot r)) = Some 4"
    by (simp add: find_unused_Some boot_shots idle_shot_def)
  then show ?thesis
    by (simp add: Shoot_def)
qed

lemma fired_fields:
  "tasks (Shoot (Play (boot r))) =
     [(T_GenerateAndShift, 1000), (T_IncreaseScore, 2500), (T_UpdateShotCooldown, 0),
      (T_MoveRightShot 4, FIRE_SPEED), (T_DecreaseCooldown, RECHARGE_RATE)]"
  "shots (Shoot (Play (boot r))) =
     [idle_shot, idle_shot, idle_shot, idle_shot, \<lparr>obj_x = 2, obj_y = 9, status = 1\<rparr>]"
  "game_health (Shoot (Play (boot r))) = 3"
  unfolding fired_state
  by (simp_all add: fire_def start_recharge_def set_status_def set_obj_x_def set_obj_y_def
      lib_defs boot_shots)
    (simp_all add: boot_def idle_shot_def)

theorem C1_game_over_cancels_witness:
  "status (shots (Shoot (Play (boot (\<lambda>n. 2)))) ! 4) = 1
   \<and> (T_MoveRightShot 4, FIRE_SPEED) \<in> set (tasks (Shoot (Play (boot (\<lambda>n. 2)))))
   \<and> tasks (GameOver (Shoot (Play (boot (\<lambda>n. 2))))) =
       [(T_UpdateShotCooldown, 0), (T_DecreaseCooldown, RECHARGE_RATE)]
   \<and> status (shots (GameOver (Shoot (Play (boot (\<lambda>n. 2))))) ! 4) = 0
   \<and> T_MoveRightShot 0 \<notin> fst ` set (tasks (Shoot (Play (boot (\<lambda>n. 2)))))
   \<and> Task_Remove (T_MoveRightShot 0) (Shoot (Play (boot (\<lambda>n. 2)))) = Shoot (Play (boot (\<lambda>n. 2)))
   \<and> game_health ((Shoot (Play (boot (\<lambda>n. 2))))\<lparr>game_health := 0\<rparr>) = 0
   \<and> run_task T_UpdateHealth ((Shoot (Play (boot (\<lambda>n. 2))))\<lparr>game_health := 0\<rparr>)
       = GameOver ((Shoot (Play (boot (\<lambda>n. 2))))\<lparr>game_health := 0\<rparr>)"
proof -
  let ?s = "Shoot (Play (boot (\<lambda>n. 2)))"
  have a: "status (shots ?s ! 4) = 1" "(4::nat) < MAX_SHOTS \<and> 4 < length (shots ?s)"
    "T_MoveRightShot 0 \<notin> fst ` set (tasks ?s)"
    "(T_MoveRightShot 4, FIRE_SPEED) \<in> set (tasks ?s)"
    by (simp_all add: fired_fields)
  have c: "\<not> cancelled ?s T_UpdateShotCooldown" "\<not> cancelled ?s T_DecreaseCooldown"
    "cancelled ?s T_GenerateAndShift" "cancelled ?s T_IncreaseScore"
    "cancelled ?s (T_MoveRightShot 4)"
    by (simp_all add: cancelled_def fired_fields)
  show ?thesis
    using C1_game_over_cancels [of ?s _ 4 "T_MoveRightShot 0"]
      C1_game_over_cancels [of "?s\<lparr>game_health := 0\<rparr>"] a c
    by (simp add: fired_fields)
qed

text \<open>
  The wording of the spec fails on the recharge task. In the execution below the
  ship fires (which schedules the recharge task) and then loses its three lives; the run
  of \<^verbatim>\<open>UpdateHealth\<close> that ends the round leaves \<^verbatim>\<open>DecreaseCooldown\<close> scheduled, and the
  task runs after the end of the round: it raises the charge from 3 to 4 and queues a
  redraw of the charge display.
\<close>

theorem C1_recharge_survives_counterexample:
  "map_option (\<lambda>t. (game_health t, host t, game_shotCooldown t, tasks t))
      (run (approach @ fire_and_crash) (boot dice))
     = Some (0, [EndGame], 3,
         [(T_UpdateShotCooldown, 0), (T_DecreaseCooldown, RECHARGE_RATE),
          (T_ResetScreenColor, 0), (T_ResetScreenColor, 0), (T_ResetScreenColor, 0)])
   \<and> map_option (\<lambda>t. (game_health t, host t, game_shotCooldown t, tasks t))
      (run (approach @ fire_and_crash @ [Tick T_DecreaseCooldown]) (boot dice))
     = Some (0, [EndGame], 4,
         [(T_UpdateShotCooldown, 0), (T_DecreaseCooldown, RECHARGE_RATE),
          (T_ResetScreenColor, 0), (T_ResetScreenColor, 0), (T_ResetScreenColor, 0),
          (T_UpdateShotCooldown, 0)])"
  by (simp add: after_approach fire_and_crash_def three_hits_def third_hit_def field_state_def ev
      idle_shot_def)

subsection \<open>Health and the end of the round\<close>










lemma take_entry_fields [simp]:
  "game_health (take_entry e s) = game_health s"
  "host (take_entry e s) = host s"
  "receiver (take_entry e s) = receiver s"
  "shots (take_entry e s) = shots s"
  "game_score (take_entry e s) = game_score s"
  "asteroidSpawnProbability (take_entry e s) = asteroidSpawnProbability s"
  by (simp_all add: take_entry_def)















lemma run_reachable: "reachable s \<Longrightarrow> run es s = Some t \<Longrightarrow> reachable t"
proof (induction es arbitrary: s)
  case Nil
  then show ?case by simp
next
  case (Cons e es)
  then obtain u where u: "exec e s = Some u" and r: "run es u = Some t"
    by (auto split: option.splits)
  have "reachable u"
    using Cons.prems(1) u by (rule reachable.step)
  then show ?case
    using r by (rule Cons.IH)
qed






subsection \<open>The difficulty ramp\<close>






lemma level_pos: "v \<in> set thresholds \<Longrightarrow> 1 \<le> level thresholds v"
  by (auto simp: thresholds_def level_def)



lemma UpdateScore_score [simp]: "game_score (UpdateScore s) = game_score s"
  by (simp add: UpdateScore_eq score_difficulty_def set_difficulty_def lib_defs)






lemma take_entry_prob [simp]:
  "asteroidSpawnProbability (take_entry e s) = asteroidSpawnProbability s"
  "game_score (take_entry e s) = game_score s"
  by (simp_all add: take_entry_def)














subsection \<open>The shot slots\<close>

lemma is_adv_iff: "is_adv t \<longleftrightarrow> (\<exists>k. t = T_MoveRightShot k)"
  by (cases t) (simp_all add: is_adv_def)

lemma shots_okI:
  assumes "length (shots s) = MAX_SHOTS"
    and "\<And>k. k < MAX_SHOTS \<Longrightarrow> status (shots s ! k) = 0 \<or> status (shots s ! k) = 1"
    and "\<And>k. k < MAX_SHOTS \<Longrightarrow>
           advance_tasks k s = (if status (shots s ! k) = 1 then 1 else 0)"
    and "\<And>k p. (T_MoveRightShot k, p) \<in> set (tasks s) \<Longrightarrow> k < MAX_SHOTS \<and> p = FIRE_SPEED"
  shows "shots_ok s"
  unfolding shots_ok_def using assms
  by (auto split: task.splits)

lemma shots_okD:
  assumes "shots_ok s"
  shows "length (shots s) = MAX_SHOTS"
    and "k < MAX_SHOTS \<Longrightarrow> status (shots s ! k) = 0 \<or> status (shots s ! k) = 1"
    and "k < MAX_SHOTS \<Longrightarrow> advance_tasks k s = (if status (shots s ! k) = 1 then 1 else 0)"
    and "(T_MoveRightShot k, p) \<in> set (tasks s) \<Longrightarrow> k < MAX_SHOTS \<and> p = FIRE_SPEED"
proof -
  show "length (shots s) = MAX_SHOTS"
    using assms by (simp add: shots_ok_def)
  show "k < MAX_SHOTS \<Longrightarrow> status (shots s ! k) = 0 \<or> status (shots s ! k) = 1"
    using assms by (simp add: shots_ok_def)
  show "k < MAX_SHOTS \<Longrightarrow> advance_tasks k s = (if status (shots s ! k) = 1 then 1 else 0)"
    using assms by (simp add: shots_ok_def)
  assume "(T_MoveRightShot k, p) \<in> set (tasks s)"
  moreover have "\<forall>e \<in> set (tasks s).
          case fst e of T_MoveRightShot k \<Rightarrow> k < MAX_SHOTS \<and> snd e = FIRE_SPEED | _ \<Rightarrow> True"
    using assms by (simp add: shots_ok_def)
  ultimately show "k < MAX_SHOTS \<and> p = FIRE_SPEED"
    by fastforce
qed

lemma no_adv_count:
  "\<forall>e \<in> set q. \<not> is_adv (fst e) \<Longrightarrow> filter (\<lambda>e. fst e = T_MoveRightShot k) q = []"
  by (auto simp: filter_empty_conv is_adv_iff)

lemma quiet_ok:
  assumes ok: "shots_ok s" and q: "quiet s t"
  shows "shots_ok t"
proof -
  obtain q where sh: "shots t = shots s" and tk: "tasks t = tasks s @ q"
    and na: "\<forall>e \<in> set q. \<not> is_adv (fst e)"
    using q by (auto simp: quiet_def)
  have cnt: "advance_tasks k t = advance_tasks k s" for k
    by (simp add: advance_tasks_def tk no_adv_count [OF na])
  show ?thesis
  proof (rule shots_okI)
    show "length (shots t) = MAX_SHOTS"
      using shots_okD(1) [OF ok] by (simp add: sh)
    show "status (shots t ! k) = 0 \<or> status (shots t ! k) = 1" if "k < MAX_SHOTS" for k
      using shots_okD(2) [OF ok that] by (simp add: sh)
    show "advance_tasks k t = (if status (shots t ! k) = 1 then 1 else 0)" if "k < MAX_SHOTS" for k
      using shots_okD(3) [OF ok that] by (simp add: sh cnt)
    show "k < MAX_SHOTS \<and> p = FIRE_SPEED" if "(T_MoveRightShot k, p) \<in> set (tasks t)" for k p
    proof -
      have "(T_MoveRightShot k, p) \<notin> set q"
        using na by (force simp: is_adv_iff)
      then have "(T_MoveRightShot k, p) \<in> set (tasks s)"
        using that by (simp add: tk)
      then show ?thesis
        by (rule shots_okD(4) [OF ok])
    qed
  qed
qed

lemma quiet_refl: "quiet s s"
  by (simp add: quiet_def)

lemma quiet_append:
  "shots t = shots s \<Longrightarrow> tasks t = tasks s @ q \<Longrightarrow> \<forall>e \<in> set q. \<not> is_adv (fst e) \<Longrightarrow> quiet s t"
  by (auto simp: quiet_def)

lemma collided_quiet: "collided s t \<Longrightarrow> quiet s t"
proof -
  assume "collided s t"
  then obtain q where sh: "shots t = shots s" and tk: "tasks t = tasks s @ q"
    and q: "set q \<subseteq> {(T_UpdateHealth, 0), (T_ResetScreenColor, 0)}"
    by (auto simp: collided_def)
  have "\<forall>e \<in> set q. \<not> is_adv (fst e)"
    using q by (auto simp: is_adv_def)
  then show ?thesis
    by (rule quiet_append [OF sh tk])
qed

lemma quiet_from:
  "shots u = shots s \<Longrightarrow> tasks u = tasks s \<Longrightarrow> quiet u t \<Longrightarrow> quiet s t"
  by (simp add: quiet_def)

lemma quiet_arrive: "shots u = shots s \<Longrightarrow> tasks u = tasks s \<Longrightarrow> quiet s (arrive u)"
  by (rule quiet_from [OF _ _ collided_quiet [OF collided_arrive]])

lemma quiet_Move:
  "quiet s (MoveRight s)" "quiet s (MoveLeft s)" "quiet s (MoveUp s)" "quiet s (MoveDown s)"
  by (simp_all add: MoveRight_def MoveLeft_def MoveUp_def MoveDown_def clear_ship_def lib_defs
      quiet_arrive quiet_refl)

lemma quiet_Play: "quiet s (Play s)"
  by (rule quiet_append [where q = "[(T_GenerateAndShift, 1000), (T_IncreaseScore, 2500)]"])
    (simp_all add: is_adv_def)

lemma fire_ok:
  assumes ok: "shots_ok s" and f: "find_unused s = Some k"
  shows "shots_ok (fire k s)"
proof -
  have k: "k < MAX_SHOTS" and idle: "status (shots s ! k) = 0"
    using f by (simp_all add: find_unused_Some)
  have len: "length (shots s) = MAX_SHOTS"
    by (rule shots_okD(1) [OF ok])
  have sh: "shots (fire k s) = (shots s)[k := \<lparr>obj_x = game_x s + 1, obj_y = game_y s, status = 1\<rparr>]"
    using k len by (simp add: body_defs lib_defs all_fields)
  obtain q where tk: "tasks (fire k s) = tasks s @ (T_UpdateShotCooldown, 0) # (T_MoveRightShot k, FIRE_SPEED) # q"
    and q: "set q \<subseteq> {(T_DecreaseCooldown, RECHARGE_RATE)}"
    by (cases "gRechargingWeapon s = 0") (auto simp: body_defs lib_defs)
  have q0: "filter (\<lambda>e. fst e = T_MoveRightShot j) q = []" for j
    using q by (auto simp: filter_empty_conv)
  have cnt: "advance_tasks j (fire k s) = advance_tasks j s + (if j = k then 1 else 0)" for j
    by (simp add: advance_tasks_def tk q0)
  have c0: "advance_tasks k s = 0"
    using shots_okD(3) [OF ok k] idle by simp
  show ?thesis
  proof (rule shots_okI)
    show "length (shots (fire k s)) = MAX_SHOTS"
      by (simp add: sh len)
    show "status (shots (fire k s) ! j) = 0 \<or> status (shots (fire k s) ! j) = 1"
      if "j < MAX_SHOTS" for j
      using shots_okD(2) [OF ok that] len that by (cases "j = k") (simp_all add: sh)
    show "advance_tasks j (fire k s) = (if status (shots (fire k s) ! j) = 1 then 1 else 0)"
      if "j < MAX_SHOTS" for j
      using shots_okD(3) [OF ok that] len that c0 by (cases "j = k") (simp_all add: sh cnt)
    show "j < MAX_SHOTS \<and> p = FIRE_SPEED" if "(T_MoveRightShot j, p) \<in> set (tasks (fire k s))" for j p
    proof (cases "(T_MoveRightShot j, p) \<in> set (tasks s)")
      case True
      then show ?thesis by (rule shots_okD(4) [OF ok])
    next
      case False
      then have "j = k \<and> p = FIRE_SPEED"
        using that q by (auto simp: tk)
      then show ?thesis using k by simp
    qed
  qed
qed

lemma Shoot_ok: "shots_ok s \<Longrightarrow> shots_ok (Shoot s)"
  by (auto simp: Shoot_def fire_ok split: option.splits)

lemma Receiver_ok: "shots_ok s \<Longrightarrow> shots_ok (Receiver c s)"
  by (simp add: Receiver_def Shoot_ok quiet_ok [OF _ quiet_Move(1)] quiet_ok [OF _ quiet_Move(2)]
      quiet_ok [OF _ quiet_Move(3)] quiet_ok [OF _ quiet_Move(4)])

lemma count_remove:
  "length (filter (\<lambda>x. fst x \<noteq> T_MoveRightShot k \<and> fst x = T_MoveRightShot j) xs)
     = (if j = k then 0 else length (filter (\<lambda>e. fst e = T_MoveRightShot j) xs))"
  by (induction xs) auto

text \<open>A slot set idle with its advance task removed: what both releases of
  \<^verbatim>\<open>MoveRightShot\<close> do, apart from entries that are no advance tasks.\<close>

lemma release_ok:
  assumes ok: "shots_ok s" and k: "k < MAX_SHOTS"
    and sh: "shots t = (shots s)[k := (shots s ! k)\<lparr>status := 0\<rparr>]"
    and tk: "tasks t = filter (\<lambda>e. fst e \<noteq> T_MoveRightShot k) (tasks s) @ q"
    and q: "\<forall>e \<in> set q. \<not> is_adv (fst e)"
  shows "shots_ok t"
proof -
  have len: "length (shots s) = MAX_SHOTS"
    by (rule shots_okD(1) [OF ok])
  have cnt: "advance_tasks j t = (if j = k then 0 else advance_tasks j s)" for j
    by (simp add: advance_tasks_def tk no_adv_count [OF q] count_remove)
  show ?thesis
  proof (rule shots_okI)
    show "length (shots t) = MAX_SHOTS"
      by (simp add: sh len)
    show "status (shots t ! j) = 0 \<or> status (shots t ! j) = 1" if "j < MAX_SHOTS" for j
      using shots_okD(2) [OF ok that] len that by (cases "j = k") (simp_all add: sh)
    show "advance_tasks j t = (if status (shots t ! j) = 1 then 1 else 0)" if "j < MAX_SHOTS" for j
      using shots_okD(3) [OF ok that] len that by (cases "j = k") (simp_all add: sh cnt)
    show "j < MAX_SHOTS \<and> p = FIRE_SPEED" if "(T_MoveRightShot j, p) \<in> set (tasks t)" for j p
    proof -
      have "(T_MoveRightShot j, p) \<notin> set q"
        using q by (force simp: is_adv_iff)
      then have "(T_MoveRightShot j, p) \<in> set (tasks s)"
        using that by (auto simp: tk)
      then show ?thesis
        by (rule shots_okD(4) [OF ok])
    qed
  qed
qed

text \<open>A slot moved one cell: nothing else of the slots and no task changes.\<close>

lemma moved_ok:
  assumes ok: "shots_ok s" and k: "k < MAX_SHOTS"
    and sh: "shots t = (shots s)[k := (shots s ! k)\<lparr>obj_x := v\<rparr>]"
    and tk: "tasks t = tasks s"
  shows "shots_ok t"
proof -
  have len: "length (shots s) = MAX_SHOTS"
    by (rule shots_okD(1) [OF ok])
  have st: "status (shots t ! j) = status (shots s ! j)" if "j < MAX_SHOTS" for j
    using len that by (cases "j = k") (simp_all add: sh)
  show ?thesis
  proof (rule shots_okI)
    show "length (shots t) = MAX_SHOTS"
      by (simp add: sh len)
    show "status (shots t ! j) = 0 \<or> status (shots t ! j) = 1" if "j < MAX_SHOTS" for j
      using shots_okD(2) [OF ok that] by (simp add: st that)
    show "advance_tasks j t = (if status (shots t ! j) = 1 then 1 else 0)" if "j < MAX_SHOTS" for j
      using shots_okD(3) [OF ok that] by (simp add: st that advance_tasks_def tk)
    show "j < MAX_SHOTS \<and> p = FIRE_SPEED" if "(T_MoveRightShot j, p) \<in> set (tasks t)" for j p
      using that shots_okD(4) [OF ok] by (simp add: tk)
  qed
qed

lemma MoveRightShot_cases:
  assumes k: "k < length (shots s)"
  shows "(shots (MoveRightShot k s) = (shots s)[k := (shots s ! k)\<lparr>obj_x := obj_x (shots s ! k) + 1\<rparr>]
          \<and> tasks (MoveRightShot k s) = tasks s)
       \<or> (shots (MoveRightShot k s) =
            ((shots s)[k := (shots s ! k)\<lparr>obj_x := obj_x (shots s ! k) + 1\<rparr>])
              [k := (shots s ! k)\<lparr>obj_x := obj_x (shots s ! k) + 1, status := 0\<rparr>]
          \<and> tasks (MoveRightShot k s)
              = filter (\<lambda>e. fst e \<noteq> T_MoveRightShot k) (tasks s) @ [(T_UpdateScore, 0)])
       \<or> (shots (MoveRightShot k s) = (shots s)[k := (shots s ! k)\<lparr>status := 0\<rparr>]
          \<and> tasks (MoveRightShot k s) = filter (\<lambda>e. fst e \<noteq> T_MoveRightShot k) (tasks s))"
  using k
  by (simp add: MoveRightShot_def clear_shot_def shot_arrive_def shot_hit_def set_status_def
      set_obj_x_def lib_defs wr_def rd_def)

lemma MoveRightShot_ok:
  assumes ok: "shots_ok s" and k: "k < MAX_SHOTS"
  shows "shots_ok (MoveRightShot k s)"
proof -
  have len: "length (shots s) = MAX_SHOTS"
    by (rule shots_okD(1) [OF ok])
  let ?m = "(shots s ! k)\<lparr>obj_x := obj_x (shots s ! k) + 1\<rparr>"
  let ?u = "s\<lparr>shots := (shots s)[k := ?m]\<rparr>"
  have u: "shots_ok ?u"
    using ok k by (rule moved_ok) simp_all
  consider
    (move) "shots (MoveRightShot k s) = (shots s)[k := ?m]" "tasks (MoveRightShot k s) = tasks s"
  | (hit) "shots (MoveRightShot k s) = ((shots s)[k := ?m])[k := ?m\<lparr>status := 0\<rparr>]"
      "tasks (MoveRightShot k s)
         = filter (\<lambda>e. fst e \<noteq> T_MoveRightShot k) (tasks s) @ [(T_UpdateScore, 0)]"
  | (edge) "shots (MoveRightShot k s) = (shots s)[k := (shots s ! k)\<lparr>status := 0\<rparr>]"
      "tasks (MoveRightShot k s) = filter (\<lambda>e. fst e \<noteq> T_MoveRightShot k) (tasks s)"
    using MoveRightShot_cases [of k s] k len by auto
  then show ?thesis
  proof cases
    case move
    show ?thesis
      using ok k move by (rule moved_ok)
  next
    case hit
    show ?thesis
    proof (rule release_ok [OF u k, where q = "[(T_UpdateScore, 0)]"])
      show "shots (MoveRightShot k s) = (shots ?u)[k := (shots ?u ! k)\<lparr>status := 0\<rparr>]"
        using k len by (simp add: hit)
      show "tasks (MoveRightShot k s)
          = filter (\<lambda>e. fst e \<noteq> T_MoveRightShot k) (tasks ?u) @ [(T_UpdateScore, 0)]"
        by (simp add: hit)
      show "\<forall>e \<in> set [(T_UpdateScore, 0)]. \<not> is_adv (fst e)"
        by (simp add: is_adv_def)
    qed
  next
    case edge
    show ?thesis
      by (rule release_ok [OF ok k, where q = "[]"]) (simp_all add: edge)
  qed
qed

lemma count_filter_le:
  "length (filter P (filter Q xs)) \<le> length (filter P xs)"
  by (induction xs) auto

lemma GameOver_ok:
  assumes ok: "shots_ok s"
  shows "shots_ok (GameOver s)"
proof -
  have len: "length (shots s) = MAX_SHOTS"
    by (rule shots_okD(1) [OF ok])
  have tk: "tasks (GameOver s) = filter (\<lambda>e. \<not> cancelled s (fst e)) (tasks s)"
    by (rule GameOver_cancelled)
  have st: "status (shots (GameOver s) ! j) = 0" if "j < MAX_SHOTS" for j
    using shots_okD(2) [OF ok that] len that by (auto simp: GameOver_shots)
  have cnt: "advance_tasks j (GameOver s) = 0" if j: "j < MAX_SHOTS" for j
  proof (cases "status (shots s ! j) = 1")
    case True
    then have "\<forall>e \<in> set (tasks s). fst e = T_MoveRightShot j \<longrightarrow> cancelled s (fst e)"
      using j by (simp add: cancelled_def)
    then have "filter (\<lambda>e. fst e = T_MoveRightShot j) (tasks (GameOver s)) = []"
      by (auto simp: tk filter_empty_conv)
    then show ?thesis
      by (simp add: advance_tasks_def)
  next
    case False
    then have "advance_tasks j s = 0"
      using shots_okD(3) [OF ok j] by simp
    moreover have "advance_tasks j (GameOver s) \<le> advance_tasks j s"
      unfolding advance_tasks_def tk by (rule count_filter_le)
    ultimately show ?thesis by simp
  qed
  show ?thesis
  proof (rule shots_okI)
    show "length (shots (GameOver s)) = MAX_SHOTS"
      by (simp add: len)
    show "status (shots (GameOver s) ! j) = 0 \<or> status (shots (GameOver s) ! j) = 1"
      if "j < MAX_SHOTS" for j
      by (simp add: st that)
    show "advance_tasks j (GameOver s) = (if status (shots (GameOver s) ! j) = 1 then 1 else 0)"
      if "j < MAX_SHOTS" for j
      by (simp add: st cnt that)
    show "j < MAX_SHOTS \<and> p = FIRE_SPEED"
      if "(T_MoveRightShot j, p) \<in> set (tasks (GameOver s))" for j p
      using that shots_okD(4) [OF ok, of j p] by (simp add: tk)
  qed
qed

lemma pruned_ok:
  assumes ok: "shots_ok s" and sh: "shots t = shots s"
    and tk: "tasks t = filter (\<lambda>e. fst e \<noteq> t0) (tasks s)" and t0: "\<not> is_adv t0"
  shows "shots_ok t"
proof -
  have "filter (\<lambda>e. fst e = T_MoveRightShot k) (filter (\<lambda>e. fst e \<noteq> t0) xs)
      = filter (\<lambda>e. fst e = T_MoveRightShot k) xs" for k and xs :: "(task \<times> nat) list"
    using t0 by (auto simp: is_adv_iff intro!: filter_cong)
  then have cnt: "advance_tasks k t = advance_tasks k s" for k
    by (simp add: advance_tasks_def tk)
  show ?thesis
  proof (rule shots_okI)
    show "length (shots t) = MAX_SHOTS"
      using shots_okD(1) [OF ok] by (simp add: sh)
    show "status (shots t ! k) = 0 \<or> status (shots t ! k) = 1" if "k < MAX_SHOTS" for k
      using shots_okD(2) [OF ok that] by (simp add: sh)
    show "advance_tasks k t = (if status (shots t ! k) = 1 then 1 else 0)" if "k < MAX_SHOTS" for k
      using shots_okD(3) [OF ok that] by (simp add: sh cnt)
    show "k < MAX_SHOTS \<and> p = FIRE_SPEED" if "(T_MoveRightShot k, p) \<in> set (tasks t)" for k p
      using that shots_okD(4) [OF ok, of k p] by (simp add: tk)
  qed
qed

lemma take_entry_ok:
  assumes ok: "shots_ok s" and e: "e \<in> set (tasks s)"
  shows "shots_ok (take_entry e s)"
proof (cases "snd e = 0")
  case False
  then show ?thesis
    using ok by (simp add: take_entry_def)
next
  case True
  have na: "\<not> is_adv (fst e)"
  proof
    assume "is_adv (fst e)"
    then obtain k where "e = (T_MoveRightShot k, snd e)"
      by (cases e) (auto simp: is_adv_iff)
    then have "(T_MoveRightShot k, snd e) \<in> set (tasks s)"
      using e by simp
    then have "snd e = FIRE_SPEED"
      using shots_okD(4) [OF ok] by blast
    then show False
      using True by simp
  qed
  have rm: "filter (\<lambda>x. fst x = T_MoveRightShot k) (remove1 e xs)
      = filter (\<lambda>x. fst x = T_MoveRightShot k) xs" for k and xs :: "(task \<times> nat) list"
    using na by (induction xs) (auto simp: is_adv_iff)
  let ?t = "take_entry e s"
  have tk: "tasks ?t = remove1 e (tasks s)" and sh: "shots ?t = shots s"
    using True by (simp_all add: take_entry_def)
  show ?thesis
  proof (rule shots_okI)
    show "length (shots ?t) = MAX_SHOTS"
      using shots_okD(1) [OF ok] by (simp add: sh)
    show "status (shots ?t ! k) = 0 \<or> status (shots ?t ! k) = 1" if "k < MAX_SHOTS" for k
      using shots_okD(2) [OF ok that] by (simp add: sh)
    show "advance_tasks k ?t = (if status (shots ?t ! k) = 1 then 1 else 0)" if "k < MAX_SHOTS" for k
      using shots_okD(3) [OF ok that] by (simp add: sh advance_tasks_def tk rm)
    show "k < MAX_SHOTS \<and> p = FIRE_SPEED" if "(T_MoveRightShot k, p) \<in> set (tasks ?t)" for k p
    proof -
      have "(T_MoveRightShot k, p) \<in> set (tasks s)"
        using that set_remove1_subset [of e "tasks s"] by (auto simp: tk)
      then show ?thesis
        by (rule shots_okD(4) [OF ok])
    qed
  qed
qed

lemma run_task_ok:
  assumes ok: "shots_ok s" and k: "\<And>k. t = T_MoveRightShot k \<Longrightarrow> k < MAX_SHOTS"
  shows "shots_ok (run_task t s)"
proof (cases t)
  case T_GenerateAndShift
  then show ?thesis
    using quiet_ok [OF ok collided_quiet [OF collided_GenerateAndShift]] by simp
next
  case T_IncreaseScore
  have "quiet s (IncreaseScore s)"
    by (rule quiet_append [where q = "[(T_UpdateScore, 0)]"])
      (simp_all add: IncreaseScore_def lib_defs is_adv_def)
  then show ?thesis
    using T_IncreaseScore quiet_ok [OF ok] by simp
next
  case (T_MoveRightShot j)
  then show ?thesis
    using MoveRightShot_ok [OF ok] k by simp
next
  case T_DecreaseCooldown
  show ?thesis
  proof (cases "game_shotCooldown s < 6")
    case True
    then have "quiet s (DecreaseCooldown s)"
      by (intro quiet_append [where q = "[(T_UpdateShotCooldown, 0)]"])
        (simp_all add: DecreaseCooldown_def lib_defs is_adv_def)
    then show ?thesis
      using T_DecreaseCooldown quiet_ok [OF ok] by simp
  next
    case False
    then have "shots_ok (DecreaseCooldown s)"
      by (intro pruned_ok [OF ok, where ?t0.0 = T_DecreaseCooldown])
        (simp_all add: DecreaseCooldown_def lib_defs is_adv_def)
    then show ?thesis
      using T_DecreaseCooldown by simp
  qed
next
  case T_UpdateScore
  have "quiet s (UpdateScore s)"
    by (cases "sint (game_score s) \<in> set [25, 35, 45, 70, 90, 100, 110, 120, 130, 150]")
      (auto simp: UpdateScore_eq score_difficulty_def set_difficulty_def lib_defs quiet_def
        is_adv_def)
  then show ?thesis
    using T_UpdateScore quiet_ok [OF ok] by simp
next
  case T_UpdateHealth
  then show ?thesis
    using ok by (simp add: UpdateHealth_eq GameOver_ok)
next
  case T_UpdateShotCooldown
  then show ?thesis using ok by simp
next
  case T_UpdateDifficulty
  then show ?thesis using ok by simp
next
  case T_ResetScreenColor
  then show ?thesis using ok by simp
qed

lemma find_in: "find P xs = Some e \<Longrightarrow> e \<in> set xs \<and> P e"
  by (auto simp: find_Some_iff)

lemma exec_ok:
  assumes ok: "shots_ok s" and ex: "exec e s = Some s'"
  shows "shots_ok s'"
proof (cases e)
  case Cmd_Play
  then show ?thesis
    using ex quiet_ok [OF ok quiet_Play] by auto
next
  case Cmd_Help
  then show ?thesis using ex ok by auto
next
  case (Cmd_Callback argc argv)
  then obtain a as where "s' = seq [too_few argc, reset_or_reject a] s"
    using ex by (auto simp: Callback_def split: list.splits)
  then have "shots s' = shots s" "tasks s' = tasks s"
    by (simp_all add: too_few_def reset_or_reject_def lib_defs)
  then have "quiet s s'"
    by (simp add: quiet_def)
  then show ?thesis
    by (rule quiet_ok [OF ok])
next
  case (Rx c)
  then show ?thesis
    using ex ok by (auto simp: Receiver_ok split: if_splits)
next
  case (Tick t)
  then obtain e' where s': "s' = run_task t (take_entry e' s)"
    and f: "find (\<lambda>e. fst e = t) (tasks s) = Some e'"
    using ex by (auto split: option.splits)
  have e': "e' \<in> set (tasks s)" "fst e' = t"
    using find_in [OF f] by simp_all
  have a: "shots_ok (take_entry e' s)"
    using ok e'(1) by (rule take_entry_ok)
  have "k < MAX_SHOTS" if "t = T_MoveRightShot k" for k
  proof -
    have "e' = (T_MoveRightShot k, snd e')"
      using e'(2) that by (cases e') simp
    then have "(T_MoveRightShot k, snd e') \<in> set (tasks s)"
      using e'(1) by simp
    then show ?thesis
      using shots_okD(4) [OF ok] by blast
  qed
  then show ?thesis
    unfolding s' using a by (intro run_task_ok)
qed

lemma booted_ok: "booted s \<Longrightarrow> shots_ok s"
  by (rule shots_okI) (auto simp: booted_def idle_shot_def advance_tasks_def nth_Cons' )

lemma reachable_ok: "reachable s \<Longrightarrow> shots_ok s"
  by (induction rule: reachable.induct) (auto simp: booted_ok exec_ok)


lemma release_step:
  assumes r: "reachable s" and ex: "exec e s = Some s'" and k: "k < MAX_SHOTS"
    and a: "status (shots s ! k) = 1" and b: "status (shots s' ! k) \<noteq> 1"
  shows "status (shots s' ! k) = 0 \<and> advance_tasks k s = 1 \<and> advance_tasks k s' = 0"
proof -
  have ok: "shots_ok s"
    using r by (rule reachable_ok)
  have ok': "shots_ok s'"
    using ok ex by (rule exec_ok)
  show ?thesis
    using shots_okD(2) [OF ok' k] shots_okD(3) [OF ok k] shots_okD(3) [OF ok' k] a b by simp
qed

lemma advance_runs:
  assumes r: "reachable s" and ex: "exec (Tick (T_MoveRightShot k)) s = Some s'"
  shows "k < MAX_SHOTS \<and> status (shots s ! k) = 1"
proof -
  have ok: "shots_ok s"
    using r by (rule reachable_ok)
  obtain e' where f: "find (\<lambda>e. fst e = T_MoveRightShot k) (tasks s) = Some e'"
    using ex by (auto split: option.splits)
  have e': "e' \<in> set (tasks s)" "fst e' = T_MoveRightShot k"
    using find_in [OF f] by simp_all
  have "e' = (T_MoveRightShot k, snd e')"
    using e'(2) by (cases e') simp
  then have "(T_MoveRightShot k, snd e') \<in> set (tasks s)"
    using e'(1) by simp
  then have k: "k < MAX_SHOTS"
    using shots_okD(4) [OF ok] by blast
  have "filter (\<lambda>e. fst e = T_MoveRightShot k) (tasks s) \<noteq> []"
    using e' by (auto simp: filter_empty_conv)
  then have "advance_tasks k s \<noteq> 0"
    by (simp add: advance_tasks_def)
  then show ?thesis
    using shots_okD(3) [OF ok k] k by (simp split: if_splits)
qed

lemma released_by:
  assumes r: "reachable s" and k: "k < MAX_SHOTS" and a: "status (shots s ! k) = 1"
    and ok': "shots_ok t" and b: "status (shots t ! k) = 0"
  shows "status (shots t ! k) = 0 \<and> advance_tasks k s = 1 \<and> advance_tasks k t = 0"
  using shots_okD(3) [OF reachable_ok [OF r] k] shots_okD(3) [OF ok' k] a b by simp

lemma edge_release:
  assumes r: "reachable s" and k: "k < MAX_SHOTS" and a: "status (shots s ! k) = 1"
    and x: "\<not> unat (obj_x (shots s ! k)) < MAP_WIDTH - 2"
  shows "status (shots (MoveRightShot k s) ! k) = 0 \<and> advance_tasks k s = 1
    \<and> advance_tasks k (MoveRightShot k s) = 0"
proof (rule released_by [OF r k a])
  have ok: "shots_ok s"
    using r by (rule reachable_ok)
  show "shots_ok (MoveRightShot k s)"
    using ok k by (rule MoveRightShot_ok)
  show "status (shots (MoveRightShot k s) ! k) = 0"
    using x k shots_okD(1) [OF ok]
    by (simp add: MoveRightShot_def clear_shot_def set_status_def lib_defs)
qed

lemma hit_release:
  assumes r: "reachable s" and k: "k < MAX_SHOTS" and a: "status (shots s ! k) = 1"
    and x: "unat (obj_x (shots s ! k)) < MAP_WIDTH - 2"
    and h: "rd (unat (obj_x (shots s ! k) + 1)) (unat (obj_y (shots s ! k))) s \<noteq> 0"
  shows "status (shots (MoveRightShot k s) ! k) = 0 \<and> advance_tasks k s = 1
    \<and> advance_tasks k (MoveRightShot k s) = 0"
proof (rule released_by [OF r k a])
  have ok: "shots_ok s"
    using r by (rule reachable_ok)
  show "shots_ok (MoveRightShot k s)"
    using ok k by (rule MoveRightShot_ok)
  show "status (shots (MoveRightShot k s) ! k) = 0"
    using x h k shots_okD(1) [OF ok]
    by (simp add: MoveRightShot_def clear_shot_def shot_arrive_def shot_hit_def set_status_def
        set_obj_x_def lib_defs rd_def wr_def)
qed

lemma over_release:
  assumes r: "reachable s" and k: "k < MAX_SHOTS" and a: "status (shots s ! k) = 1"
  shows "status (shots (GameOver s) ! k) = 0 \<and> advance_tasks k s = 1
    \<and> advance_tasks k (GameOver s) = 0"
proof (rule released_by [OF r k a])
  have ok: "shots_ok s"
    using r by (rule reachable_ok)
  show "shots_ok (GameOver s)"
    using ok by (rule GameOver_ok)
  show "status (shots (GameOver s) ! k) = 0"
    using k a shots_okD(1) [OF ok] by (simp add: GameOver_shots)
qed

text \<open>
  C6. In every reachable state there are \<open>MAX_SHOTS\<close> slots, so at most that many are
  active, and every active slot has exactly one advance task, an idle slot none
  (\<open>shots_ok\<close>). An advance task only runs for a slot that is active. Whenever an event
  takes a slot from active to not active the slot is idle afterwards, and its one advance
  task is gone; this is what the three releases do: \<^verbatim>\<open>MoveRightShot\<close> with the shot at the
  far boundary, \<^verbatim>\<open>MoveRightShot\<close> with an asteroid in the cell the shot moves to, and
  \<^verbatim>\<open>GameOver\<close>.
\<close>

theorem C6_shot_slots:
  "(reachable s \<longrightarrow>
      shots_ok s \<and> length (filter (\<lambda>sh. status sh = 1) (shots s)) \<le> MAX_SHOTS)
   \<and> (reachable s \<and> exec (Tick (T_MoveRightShot k)) s = Some s' \<longrightarrow>
        k < MAX_SHOTS \<and> status (shots s ! k) = 1)
   \<and> (reachable s \<and> exec e s = Some s' \<and> k < MAX_SHOTS \<and> status (shots s ! k) = 1
        \<and> status (shots s' ! k) \<noteq> 1 \<longrightarrow>
        status (shots s' ! k) = 0 \<and> advance_tasks k s = 1 \<and> advance_tasks k s' = 0)
   \<and> (reachable s \<and> k < MAX_SHOTS \<and> status (shots s ! k) = 1
        \<and> \<not> unat (obj_x (shots s ! k)) < MAP_WIDTH - 2 \<longrightarrow>
        status (shots (MoveRightShot k s) ! k) = 0 \<and> advance_tasks k s = 1
        \<and> advance_tasks k (MoveRightShot k s) = 0)
   \<and> (reachable s \<and> k < MAX_SHOTS \<and> status (shots s ! k) = 1
        \<and> unat (obj_x (shots s ! k)) < MAP_WIDTH - 2
        \<and> rd (unat (obj_x (shots s ! k) + 1)) (unat (obj_y (shots s ! k))) s \<noteq> 0 \<longrightarrow>
        status (shots (MoveRightShot k s) ! k) = 0 \<and> advance_tasks k s = 1
        \<and> advance_tasks k (MoveRightShot k s) = 0)
   \<and> (reachable s \<and> k < MAX_SHOTS \<and> status (shots s ! k) = 1 \<longrightarrow>
        status (shots (GameOver s) ! k) = 0 \<and> advance_tasks k s = 1
        \<and> advance_tasks k (GameOver s) = 0)"
proof (intro conjI impI)
  assume r: "reachable s"
  show "shots_ok s"
    using r by (rule reachable_ok)
  have "length (filter (\<lambda>sh. status sh = 1) (shots s)) \<le> length (shots s)"
    by (rule length_filter_le)
  then show "length (filter (\<lambda>sh. status sh = 1) (shots s)) \<le> MAX_SHOTS"
    using shots_okD(1) [OF reachable_ok [OF r]] by simp
next
  assume a: "reachable s \<and> exec (Tick (T_MoveRightShot k)) s = Some s'"
  show "k < MAX_SHOTS" "status (shots s ! k) = 1"
    using advance_runs [OF conjunct1 [OF a] conjunct2 [OF a]] by simp_all
next
  assume a: "reachable s \<and> exec e s = Some s' \<and> k < MAX_SHOTS \<and> status (shots s ! k) = 1
        \<and> status (shots s' ! k) \<noteq> 1"
  then have "status (shots s' ! k) = 0 \<and> advance_tasks k s = 1 \<and> advance_tasks k s' = 0"
    by (intro release_step [of s e s' k]) simp_all
  then show "status (shots s' ! k) = 0" "advance_tasks k s = 1" "advance_tasks k s' = 0"
    by simp_all
next
  assume a: "reachable s \<and> k < MAX_SHOTS \<and> status (shots s ! k) = 1
        \<and> \<not> unat (obj_x (shots s ! k)) < MAP_WIDTH - 2"
  then have "status (shots (MoveRightShot k s) ! k) = 0 \<and> advance_tasks k s = 1
        \<and> advance_tasks k (MoveRightShot k s) = 0"
    by (intro edge_release) simp_all
  then show "status (shots (MoveRightShot k s) ! k) = 0" "advance_tasks k s = 1"
    "advance_tasks k (MoveRightShot k s) = 0"
    by simp_all
next
  assume a: "reachable s \<and> k < MAX_SHOTS \<and> status (shots s ! k) = 1
        \<and> unat (obj_x (shots s ! k)) < MAP_WIDTH - 2
        \<and> rd (unat (obj_x (shots s ! k) + 1)) (unat (obj_y (shots s ! k))) s \<noteq> 0"
  then have "status (shots (MoveRightShot k s) ! k) = 0 \<and> advance_tasks k s = 1
        \<and> advance_tasks k (MoveRightShot k s) = 0"
    by (intro hit_release) simp_all
  then show "status (shots (MoveRightShot k s) ! k) = 0" "advance_tasks k s = 1"
    "advance_tasks k (MoveRightShot k s) = 0"
    by simp_all
next
  assume a: "reachable s \<and> k < MAX_SHOTS \<and> status (shots s ! k) = 1"
  then have "status (shots (GameOver s) ! k) = 0 \<and> advance_tasks k s = 1
        \<and> advance_tasks k (GameOver s) = 0"
    by (intro over_release) simp_all
  then show "status (shots (GameOver s) ! k) = 0" "advance_tasks k s = 1"
    "advance_tasks k (GameOver s) = 0"
    by simp_all
qed


lemma aimed_run: "run (approach @ [Rx (CHR '' '')]) (boot dice) = Some aimed"
  by (simp add: after_approach aimed_def field_state_def ev idle_shot_def)

lemma far_shot_run: "run far_shot_run (boot dice) = Some far_shot"
  apply (subst boot_grid)
  apply (simp add: far_shot_run_def far_shot_def boot_def ev idle_shot_def)
  done

lemma aimed_reachable: "reachable aimed"
  using reachable.start [OF booted_boot] aimed_run by (rule run_reachable)

lemma far_shot_reachable: "reachable far_shot"
  using reachable.start [OF booted_boot] far_shot_run by (rule run_reachable)

theorem C6_shot_slots_witness:
  "reachable aimed \<and> shots_ok aimed
   \<and> length (filter (\<lambda>sh. status sh = 1) (shots aimed)) = 1
   \<and> exec (Tick (T_MoveRightShot 4)) aimed = Some (MoveRightShot 4 aimed)
   \<and> status (shots aimed ! 4) = 1
   \<and> unat (obj_x (shots aimed ! 4)) < MAP_WIDTH - 2
   \<and> rd (unat (obj_x (shots aimed ! 4) + 1)) (unat (obj_y (shots aimed ! 4))) aimed \<noteq> 0
   \<and> status (shots (MoveRightShot 4 aimed) ! 4) = 0
   \<and> advance_tasks 4 aimed = 1 \<and> advance_tasks 4 (MoveRightShot 4 aimed) = 0
   \<and> status (shots (GameOver aimed) ! 4) = 0 \<and> advance_tasks 4 (GameOver aimed) = 0
   \<and> reachable far_shot \<and> status (shots far_shot ! 4) = 1
   \<and> \<not> unat (obj_x (shots far_shot ! 4)) < MAP_WIDTH - 2
   \<and> status (shots (MoveRightShot 4 far_shot) ! 4) = 0
   \<and> advance_tasks 4 far_shot = 1 \<and> advance_tasks 4 (MoveRightShot 4 far_shot) = 0"
proof -
  let ?m = "MoveRightShot 4 aimed"
  have a: "status (shots aimed ! 4) = 1" "unat (obj_x (shots aimed ! 4)) < MAP_WIDTH - 2"
    "rd (unat (obj_x (shots aimed ! 4) + 1)) (unat (obj_y (shots aimed ! 4))) aimed \<noteq> 0"
    "length (filter (\<lambda>sh. status sh = 1) (shots aimed)) = 1"
    by (simp_all add: aimed_def field_state_def idle_shot_def rd_def offset_def grid_of_Cons)
  have f: "status (shots far_shot ! 4) = 1" "\<not> unat (obj_x (shots far_shot ! 4)) < MAP_WIDTH - 2"
    by (simp_all add: far_shot_def)
  have ex: "exec (Tick (T_MoveRightShot 4)) aimed = Some ?m"
    by (simp add: aimed_def field_state_def take_entry_def)
  have k: "(4::nat) < MAX_SHOTS" and ne: "(0::uint8) \<noteq> 1"
    by simp_all
  note c = C6_shot_slots [where k = 4]
  have w1: "shots_ok aimed"
    using c [where s = aimed, THEN conjunct1] aimed_reachable by simp
  have w2: "status (shots ?m ! 4) = 0 \<and> advance_tasks 4 aimed = 1 \<and> advance_tasks 4 ?m = 0"
    using c [where s = aimed, THEN conjunct2, THEN conjunct2, THEN conjunct2, THEN conjunct2,
        THEN conjunct1] aimed_reachable a k
    by simp
  have w3: "(4::nat) < MAX_SHOTS \<and> status (shots aimed ! 4) = 1"
    using c [where s = aimed and s' = ?m, THEN conjunct2, THEN conjunct1] aimed_reachable ex
    by simp
  have w4: "status (shots ?m ! 4) = 0 \<and> advance_tasks 4 aimed = 1 \<and> advance_tasks 4 ?m = 0"
    using c [where s = aimed and s' = ?m and e = "Tick (T_MoveRightShot 4)", THEN conjunct2,
        THEN conjunct2, THEN conjunct1] aimed_reachable ex a k w2
    by simp
  have w5: "status (shots (GameOver aimed) ! 4) = 0 \<and> advance_tasks 4 aimed = 1
      \<and> advance_tasks 4 (GameOver aimed) = 0"
    using c [where s = aimed, THEN conjunct2, THEN conjunct2, THEN conjunct2, THEN conjunct2,
        THEN conjunct2] aimed_reachable a k
    by simp
  have w6: "status (shots (MoveRightShot 4 far_shot) ! 4) = 0 \<and> advance_tasks 4 far_shot = 1
      \<and> advance_tasks 4 (MoveRightShot 4 far_shot) = 0"
    using c [where s = far_shot, THEN conjunct2, THEN conjunct2, THEN conjunct2, THEN conjunct1]
      far_shot_reachable f k
    by simp
  show ?thesis
    using aimed_reachable far_shot_reachable w1 a ex w4 w5 w6 f by simp
qed

end
